theory Spec2Isabelle
  imports Complex_Main "HOL-Library.Sublist" "HOL-Library.Signed_Division" "HOL-Library.Word"
    "HOL-Library.Multiset" "HOL-Library.Log_Nat"
begin

section \<open>Chunk planner (internal/fileprocessor, CalculateChunkPlan and its strategies)\<close>

text \<open>
  Go's \<open>int64\<close> and \<open>int\<close> are modelled as \<open>int\<close>.  Every intermediate value of the planner
  lies between \<open>0\<close> and the sum of the drives' free spaces (or is the file size itself), so the
  model agrees with the code whenever that sum is below \<open>2^63\<close>.  A
  \<open>primitive.ObjectID\<close> is an opaque identifier, modelled as a natural number.
\<close>

type_synonym ObjectID = nat

record DriveSpaceInfo =
  AccountID :: ObjectID
  DisplayName :: string
  TotalSpace :: int
  UsedSpace :: int
  FreeSpace :: int
  Available :: bool
  Error :: string

record ChunkPlan =
  ChunkID :: int
  DriveAccountID :: ObjectID
  Size :: int
  StartOffset :: int
  EndOffset :: int

text \<open>\<open>ChunkingStrategy\<close> is a string type with four named constants.\<close>

type_synonym ChunkingStrategy = string

definition StrategyGreedy :: ChunkingStrategy where "StrategyGreedy = ''greedy''"
definition StrategyBalanced :: ChunkingStrategy where "StrategyBalanced = ''balanced''"
definition StrategyProportional :: ChunkingStrategy where "StrategyProportional = ''proportional''"
definition StrategyManual :: ChunkingStrategy where "StrategyManual = ''manual''"

text \<open>The error returns of the planner, one constructor for each message of the source.\<close>

datatype plan_error =
    NoAvailableDrives
  | InsufficientTotalSpace int int
  | FailedToAllocate int
  | FailedToAllocateShort int
  | ManualCountMismatch
  | ManualNegativeSize int
  | ManualExceedsCapacity int int int
  | ManualSumMismatch int int
  | InvalidStrategy
  | PanicDivideByZero

definition mkChunk :: "int \<Rightarrow> DriveSpaceInfo \<Rightarrow> int \<Rightarrow> int \<Rightarrow> ChunkPlan" where
  "mkChunk chunkID drive chunkSize offset =
     \<lparr>ChunkID = chunkID, DriveAccountID = AccountID drive, Size = chunkSize,
      StartOffset = offset, EndOffset = offset + chunkSize\<rparr>"

subsection \<open>Greedy\<close>

text \<open>
  \<open>sort.Slice(drives, func(i, j) { return drives[i].FreeSpace > drives[j].FreeSpace })\<close>:
  descending by free space.  The library sort is an insertion sort on short slices; ties keep
  their input order in the model.  None of the theorems below depends on the order of ties.
\<close>

definition sortDrivesDesc :: "DriveSpaceInfo list \<Rightarrow> DriveSpaceInfo list" where
  "sortDrivesDesc drives = sort_key (\<lambda>d. - FreeSpace d) drives"

text \<open>The loop of \<open>calculateGreedyPlan\<close>; the state is \<open>(chunks, remaining, offset, chunkID)\<close>.\<close>

fun greedy_loop ::
  "DriveSpaceInfo list \<Rightarrow> ChunkPlan list \<Rightarrow> int \<Rightarrow> int \<Rightarrow> int \<Rightarrow> ChunkPlan list \<times> int" where
  "greedy_loop [] chunks remaining offset chunkID = (chunks, remaining)"
| "greedy_loop (drive # drives) chunks remaining offset chunkID =
     (if remaining \<le> 0 then (chunks, remaining)
      else
        let chunkSize = (if remaining > FreeSpace drive then FreeSpace drive else remaining)
        in greedy_loop drives (chunks @ [mkChunk chunkID drive chunkSize offset])
             (remaining - chunkSize) (offset + chunkSize) (chunkID + 1))"

definition calculateGreedyPlan :: "int \<Rightarrow> DriveSpaceInfo list \<Rightarrow> plan_error + ChunkPlan list" where
  "calculateGreedyPlan fileSize drives =
     (case greedy_loop (sortDrivesDesc drives) [] fileSize 0 1 of
        (chunks, remaining) \<Rightarrow>
          if remaining > 0 then Inl (FailedToAllocate remaining) else Inr chunks)"

subsection \<open>Balanced\<close>

text \<open>
  The loop of \<open>calculateBalancedPlan\<close>, with the index \<open>i\<close> of \<open>range drives\<close> carried along.
\<close>

fun balanced_loop ::
  "nat \<Rightarrow> int \<Rightarrow> nat \<Rightarrow> DriveSpaceInfo list \<Rightarrow> ChunkPlan list \<Rightarrow> int \<Rightarrow> int \<Rightarrow> int
     \<Rightarrow> ChunkPlan list \<times> int" where
  "balanced_loop numDrives targetChunkSize i [] chunks remaining offset chunkID = (chunks, remaining)"
| "balanced_loop numDrives targetChunkSize i (drive # drives) chunks remaining offset chunkID =
     (if remaining \<le> 0 then (chunks, remaining)
      else
        let chunkSize0 = (if int i = int numDrives - 1 then remaining else targetChunkSize);
            chunkSize1 = (if chunkSize0 > FreeSpace drive then FreeSpace drive else chunkSize0);
            chunkSize = (if chunkSize1 > remaining then remaining else chunkSize1)
        in if chunkSize > 0
           then balanced_loop numDrives targetChunkSize (Suc i) drives
                  (chunks @ [mkChunk chunkID drive chunkSize offset])
                  (remaining - chunkSize) (offset + chunkSize) (chunkID + 1)
           else balanced_loop numDrives targetChunkSize (Suc i) drives
                  chunks remaining offset chunkID)"

text \<open>
  \<open>fileSize / int64(numDrives)\<close> is Go's truncating division (\<open>sdiv\<close>); on an empty drive list
  it panics, which no caller reaches because \<open>CalculateChunkPlan\<close> rejects that list first.
\<close>

definition calculateBalancedPlan :: "int \<Rightarrow> DriveSpaceInfo list \<Rightarrow> plan_error + ChunkPlan list" where
  "calculateBalancedPlan fileSize drives =
     (let numDrives = length drives in
      if numDrives = 0 then Inl PanicDivideByZero
      else
        let targetChunkSize = fileSize sdiv int numDrives in
        case balanced_loop numDrives targetChunkSize 0 drives [] fileSize 0 1 of
          (chunks, remaining) \<Rightarrow>
            if remaining > 0 then calculateGreedyPlan fileSize drives else Inr chunks)"

subsection \<open>Proportional\<close>

text \<open>
  The proportional share is computed in \<open>float64\<close>:
  \<open>int64(float64(fileSize) * (float64(drive.FreeSpace) / float64(totalSpace)))\<close>.
  The expression is the parameter \<open>fshare fileSize freeSpace totalSpace\<close> of the planner model,
  so that what is proved of the planner holds whatever the floating-point unit returns;
  everything around it is the code's.  The \<open>float64\<close> computation itself is \<open>float64_share\<close>
  below.
\<close>

type_synonym float_share = "int \<Rightarrow> int \<Rightarrow> int \<Rightarrow> int"

fun proportional_loop ::
  "float_share \<Rightarrow> int \<Rightarrow> int \<Rightarrow> nat \<Rightarrow> nat \<Rightarrow> DriveSpaceInfo list \<Rightarrow> ChunkPlan list
     \<Rightarrow> int \<Rightarrow> int \<Rightarrow> int \<Rightarrow> ChunkPlan list \<times> int" where
  "proportional_loop fshare fileSize totalSpace numDrives i [] chunks allocated offset chunkID =
     (chunks, allocated)"
| "proportional_loop fshare fileSize totalSpace numDrives i (drive # drives) chunks allocated offset chunkID =
     (let chunkSize0 = fshare fileSize (FreeSpace drive) totalSpace;
          chunkSize1 = (if int i = int numDrives - 1 then fileSize - allocated else chunkSize0);
          chunkSize = (if chunkSize1 > FreeSpace drive then FreeSpace drive else chunkSize1)
      in if chunkSize > 0
         then proportional_loop fshare fileSize totalSpace numDrives (Suc i) drives
                (chunks @ [mkChunk chunkID drive chunkSize offset])
                (allocated + chunkSize) (offset + chunkSize) (chunkID + 1)
         else proportional_loop fshare fileSize totalSpace numDrives (Suc i) drives
                chunks allocated offset chunkID)"

definition calculateProportionalPlan ::
  "float_share \<Rightarrow> int \<Rightarrow> DriveSpaceInfo list \<Rightarrow> plan_error + ChunkPlan list" where
  "calculateProportionalPlan fshare fileSize drives =
     (let totalSpace = sum_list (map FreeSpace drives) in
      case proportional_loop fshare fileSize totalSpace (length drives) 0 drives [] 0 0 1 of
        (chunks, allocated) \<Rightarrow>
          if allocated < fileSize then Inl (FailedToAllocateShort (fileSize - allocated))
          else Inr chunks)"

subsection \<open>Manual\<close>

text \<open>The validation loop: first offending entry wins, otherwise the running total.\<close>

fun manual_validate ::
  "DriveSpaceInfo list \<Rightarrow> nat \<Rightarrow> int list \<Rightarrow> int \<Rightarrow> plan_error + int" where
  "manual_validate drives i [] totalManual = Inr totalManual"
| "manual_validate drives i (sz # sizes) totalManual =
     (if sz < 0 then Inl (ManualNegativeSize (int i + 1))
      else if sz > FreeSpace (drives ! i)
        then Inl (ManualExceedsCapacity (int i + 1) sz (FreeSpace (drives ! i)))
      else manual_validate drives (Suc i) sizes (totalManual + sz))"

text \<open>The emitting loop: the chunk id is \<open>i + 1\<close>, the index of the drive, not a running counter.\<close>

fun manual_loop ::
  "DriveSpaceInfo list \<Rightarrow> nat \<Rightarrow> int list \<Rightarrow> ChunkPlan list \<Rightarrow> int \<Rightarrow> ChunkPlan list" where
  "manual_loop drives i [] chunks offset = chunks"
| "manual_loop drives i (sz # sizes) chunks offset =
     (if sz > 0
      then manual_loop drives (Suc i) sizes
             (chunks @ [mkChunk (int i + 1) (drives ! i) sz offset]) (offset + sz)
      else manual_loop drives (Suc i) sizes chunks offset)"

definition calculateManualPlan ::
  "int \<Rightarrow> DriveSpaceInfo list \<Rightarrow> int list \<Rightarrow> plan_error + ChunkPlan list" where
  "calculateManualPlan fileSize drives manualSizes =
     (if length manualSizes \<noteq> length drives then Inl ManualCountMismatch
      else case manual_validate drives 0 manualSizes 0 of
             Inl e \<Rightarrow> Inl e
           | Inr totalManual \<Rightarrow>
               if totalManual \<noteq> fileSize then Inl (ManualSumMismatch totalManual fileSize)
               else Inr (manual_loop drives 0 manualSizes [] 0))"

subsection \<open>CalculateChunkPlan\<close>

definition availableDrives :: "DriveSpaceInfo list \<Rightarrow> DriveSpaceInfo list" where
  "availableDrives driveSpaces = filter (\<lambda>d. Available d \<and> FreeSpace d > 0) driveSpaces"

definition CalculateChunkPlan ::
  "float_share \<Rightarrow> int \<Rightarrow> DriveSpaceInfo list \<Rightarrow> ChunkingStrategy \<Rightarrow> int list
     \<Rightarrow> plan_error + ChunkPlan list" where
  "CalculateChunkPlan fshare fileSize driveSpaces strategy manualSizes =
     (let avail = availableDrives driveSpaces;
          totalAvailable = sum_list (map FreeSpace avail)
      in if length avail = 0 then Inl NoAvailableDrives
         else if totalAvailable < fileSize then Inl (InsufficientTotalSpace fileSize totalAvailable)
         else if strategy = StrategyGreedy then calculateGreedyPlan fileSize avail
         else if strategy = StrategyBalanced then calculateBalancedPlan fileSize avail
         else if strategy = StrategyProportional then calculateProportionalPlan fshare fileSize avail
         else if strategy = StrategyManual then calculateManualPlan fileSize avail manualSizes
         else Inl InvalidStrategy)"

text \<open>A drive record with only the fields the planner reads filled in.\<close>

definition mkDrive :: "ObjectID \<Rightarrow> int \<Rightarrow> DriveSpaceInfo" where
  "mkDrive a f = \<lparr>AccountID = a, DisplayName = [], TotalSpace = f, UsedSpace = 0, FreeSpace = f,
                Available = True, Error = []\<rparr>"

subsection \<open>Auxiliary definitions for the planner proofs\<close>

text \<open>
  The loops of the four strategies all append chunks whose offsets are prefix sums of the
  sizes; \<open>layout\<close> builds such a list from \<open>(chunk id, drive, size)\<close> triples, and
  \<open>with_ids\<close> numbers \<open>(drive, size)\<close> pairs with a running counter, as the greedy, balanced
  and proportional loops do.  The \<open>_assign\<close> functions are the \<open>(drive, size)\<close> decisions of
  each loop without the bookkeeping.
\<close>

fun layout :: "int \<Rightarrow> (int \<times> DriveSpaceInfo \<times> int) list \<Rightarrow> ChunkPlan list" where
  "layout offset [] = []"
| "layout offset ((k, d, s) # ts) = mkChunk k d s offset # layout (offset + s) ts"

fun with_ids :: "int \<Rightarrow> (DriveSpaceInfo \<times> int) list \<Rightarrow> (int \<times> DriveSpaceInfo \<times> int) list" where
  "with_ids chunkID [] = []"
| "with_ids chunkID ((d, s) # ps) = (chunkID, d, s) # with_ids (chunkID + 1) ps"

fun greedy_assign :: "DriveSpaceInfo list \<Rightarrow> int \<Rightarrow> (DriveSpaceInfo \<times> int) list" where
  "greedy_assign [] remaining = []"
| "greedy_assign (d # ds) remaining =
     (if remaining \<le> 0 then []
      else (d, min remaining (FreeSpace d)) # greedy_assign ds (remaining - min remaining (FreeSpace d)))"

fun balanced_assign :: "nat \<Rightarrow> int \<Rightarrow> nat \<Rightarrow> DriveSpaceInfo list \<Rightarrow> int \<Rightarrow> (DriveSpaceInfo \<times> int) list" where
  "balanced_assign n t i [] remaining = []"
| "balanced_assign n t i (d # ds) remaining =
     (if remaining \<le> 0 then []
      else let c = min (min (if int i = int n - 1 then remaining else t) (FreeSpace d)) remaining
           in if c > 0 then (d, c) # balanced_assign n t (Suc i) ds (remaining - c)
              else balanced_assign n t (Suc i) ds remaining)"

fun proportional_assign ::
  "float_share \<Rightarrow> int \<Rightarrow> int \<Rightarrow> nat \<Rightarrow> nat \<Rightarrow> DriveSpaceInfo list \<Rightarrow> int \<Rightarrow> (DriveSpaceInfo \<times> int) list" where
  "proportional_assign fshare fileSize tot n i [] allocated = []"
| "proportional_assign fshare fileSize tot n i (d # ds) allocated =
     (let c = min (if int i = int n - 1 then fileSize - allocated else fshare fileSize (FreeSpace d) tot)
                  (FreeSpace d)
      in if c > 0 then (d, c) # proportional_assign fshare fileSize tot n (Suc i) ds (allocated + c)
         else proportional_assign fshare fileSize tot n (Suc i) ds allocated)"

fun manual_assign :: "DriveSpaceInfo list \<Rightarrow> nat \<Rightarrow> int list \<Rightarrow> (int \<times> DriveSpaceInfo \<times> int) list" where
  "manual_assign drives i [] = []"
| "manual_assign drives i (s # ss) =
     (if s > 0 then (int i + 1, drives ! i, s) # manual_assign drives (Suc i) ss
      else manual_assign drives (Suc i) ss)"

definition proportional_leading :: "float_share \<Rightarrow> int \<Rightarrow> DriveSpaceInfo list \<Rightarrow> int" where
  "proportional_leading fshare fileSize drives =
     sum_list (map (\<lambda>d. max 0 (min (fshare fileSize (FreeSpace d) (sum_list (map FreeSpace drives)))
                                    (FreeSpace d)))
                   (butlast drives))"

definition assigned_ok :: "DriveSpaceInfo list \<Rightarrow> (DriveSpaceInfo \<times> int) list \<Rightarrow> bool" where
  "assigned_ok avail ps = (\<forall>p\<in>set ps. fst p \<in> set avail \<and> 0 < snd p \<and> snd p \<le> FreeSpace (fst p))"

definition number_chunks :: "(DriveSpaceInfo \<times> int) list \<Rightarrow> ChunkPlan list" where
  "number_chunks ps = layout 0 (with_ids 1 ps)"

definition exact_share :: float_share where
  "exact_share fileSize freeSpace totalSpace = (fileSize * freeSpace) div totalSpace"

definition balanced_target :: "int \<Rightarrow> DriveSpaceInfo list \<Rightarrow> int" where
  "balanced_target fileSize drives = fileSize div int (length drives)"

definition balanced_lead :: "int \<Rightarrow> DriveSpaceInfo list \<Rightarrow> int list" where
  "balanced_lead fileSize drives =
     map (\<lambda>d. min (balanced_target fileSize drives) (FreeSpace d)) (butlast drives)"

definition balanced_rest :: "int \<Rightarrow> DriveSpaceInfo list \<Rightarrow> int" where
  "balanced_rest fileSize drives = fileSize - sum_list (balanced_lead fileSize drives)"

definition balanced_offers :: "int \<Rightarrow> DriveSpaceInfo list \<Rightarrow> (DriveSpaceInfo \<times> int) list" where
  "balanced_offers fileSize drives =
     zip (butlast drives) (balanced_lead fileSize drives) @ [(last drives, balanced_rest fileSize drives)]"


section \<open>The float64 arithmetic of the proportional share\<close>

text \<open>
  Go's \<open>float64\<close> is the IEEE 754 binary64 format: a significand of 53 bits, and every
  conversion and operation rounded to the nearest representable value, ties to the even
  significand.  \<open>roundToEven\<close> rounds a real number to the nearest integer, ties to even;
  \<open>binade x\<close> is the exponent \<open>e\<close> with \<open>2^e \<le> x < 2^(e + 1)\<close> of a positive \<open>x\<close>; \<open>float64 x\<close> is
  \<open>x\<close> rounded to 53 significant bits.  Overflow and subnormal numbers are left out: the
  planner computes with integers below \<open>2^63\<close> and their quotients, which stay far inside the
  normal range.
\<close>

definition roundToEven :: "real \<Rightarrow> int" where
  "roundToEven x =
     (if x - of_int \<lfloor>x\<rfloor> < 1 / 2 then \<lfloor>x\<rfloor>
      else if x - of_int \<lfloor>x\<rfloor> > 1 / 2 then \<lfloor>x\<rfloor> + 1
      else if even \<lfloor>x\<rfloor> then \<lfloor>x\<rfloor> else \<lfloor>x\<rfloor> + 1)"

definition binade :: "real \<Rightarrow> int" where
  "binade x = (if 1 \<le> x then bitlen \<lfloor>x\<rfloor> - 1 else - int (ceillog2 (nat \<lceil>1 / x\<rceil>)))"

definition float64 :: "real \<Rightarrow> real" where
  "float64 x =
     (if x = 0 then 0
      else sgn x * of_int (roundToEven (\<bar>x\<bar> / 2 powi (binade \<bar>x\<bar> - 52))) * 2 powi (binade \<bar>x\<bar> - 52))"


section \<open>Shared model types (internal/models)\<close>

type_synonym byte = "8 word"
type_synonym Time = int

text \<open>
  \<open>ObfuscationMetadata\<close> is declared in \<open>internal/models/filemodels.go\<close>; \<open>overhead_pct\<close> is
  a \<open>float64\<close>, modelled as a real number.
\<close>

record ObfuscationMetadata =
  Algorithm :: string
  Seed :: string
  BlockSize :: int
  OverheadPct :: real
  MinGap :: int

section \<open>Obfuscation codec (internal/fileprocessor, obfuscator.go and deobfuscator.go)\<close>

text \<open>
  The codec reads and writes files through streams.  A file is the list of its bytes.  What
  lies outside the repository is a parameter of the model, collected in \<open>Libs\<close>:
  \<^item> \<open>chacha20 key\<close> is the ChaCha20 keystream for a 32-byte key and the all-zero nonce, as an
    infinite sequence of bytes; \<open>cipher.XORKeyStream(dst, src)\<close> with a zero \<open>src\<close> copies the
    next \<open>len(dst)\<close> keystream bytes to \<open>dst\<close>, so a cipher is a keystream and a position in it;
  \<^item> \<open>base64Encode\<close> and \<open>base64Decode\<close> are \<open>base64.StdEncoding\<close>;
  \<^item> \<open>floatScale n pct\<close> is the \<open>float64\<close> expression \<open>int64(float64(n) * (pct / 100.0))\<close>.
  File-system calls are taken to succeed; the error returns for them are not modelled.
\<close>

type_synonym keystream = "nat \<Rightarrow> byte"

record Libs =
  chacha20 :: "byte list \<Rightarrow> keystream"
  base64Encode :: "byte list \<Rightarrow> string"
  base64Decode :: "string \<Rightarrow> byte list option"
  floatScale :: "int \<Rightarrow> real \<Rightarrow> int"

text \<open>The package variables set by \<open>init()\<close> from the environment.\<close>

record ObfConfig =
  defaultBlockSize :: int
  defaultOverheadPct :: real
  defaultMinGap :: int

definition defaultConfig :: ObfConfig where
  "defaultConfig = \<lparr>defaultBlockSize = 256, defaultOverheadPct = 8, defaultMinGap = 4096\<rparr>"

datatype CodecError =
    PanicDivideByZero
  | PanicMakeSlice
  | InvalidKeyLength
  | MetadataRequired
  | InvalidOriginalSize int
  | InvalidBlockSize int
  | SeedDecodeFailed
  | OriginalExceedsProcessed int int
  | NegativeNoiseBytes int
  | NoiseNotAligned int int

definition NewUnauthenticatedCipher :: "Libs \<Rightarrow> byte list \<Rightarrow> CodecError + keystream" where
  "NewUnauthenticatedCipher libs key =
     (if length key \<noteq> 32 then Inl InvalidKeyLength else Inr (chacha20 libs key))"

text \<open>The next \<open>n\<close> keystream bytes from position \<open>pos\<close>.\<close>

definition XORKeyStream :: "keystream \<Rightarrow> nat \<Rightarrow> nat \<Rightarrow> byte list" where
  "XORKeyStream ks pos n = map ks [pos..<pos + n]"

text \<open>Conversions between \<open>int64\<close> and \<open>uint64\<close>, and \<open>binary.BigEndian.Uint64\<close>.\<close>

definition uint64 :: "int \<Rightarrow> nat" where
  "uint64 x = nat (x mod 2 ^ 64)"

definition int64 :: "nat \<Rightarrow> int" where
  "int64 v = (let u = int (v mod 2 ^ 64) in if u < 2 ^ 63 then u else u - 2 ^ 64)"

definition BigEndianUint64 :: "byte list \<Rightarrow> nat" where
  "BigEndianUint64 bs = foldl (\<lambda>acc b. acc * 256 + unat b) 0 (take 8 bs)"

subsection \<open>generateInjectionOffsets\<close>

text \<open>
  The conversion loop: \<open>offset := int64(val % uint64(maxOffset))\<close> is an integer division
  and panics when \<open>maxOffset\<close> is 0.
\<close>

fun offsets_loop :: "byte list \<Rightarrow> int \<Rightarrow> nat \<Rightarrow> nat \<Rightarrow> int list \<Rightarrow> CodecError + int list" where
  "offsets_loop randomBytes maxOffset i 0 offsets = Inr offsets"
| "offsets_loop randomBytes maxOffset i (Suc todo) offsets =
     (let base = i * 8;
          val = BigEndianUint64 (drop base randomBytes)
      in if uint64 maxOffset = 0 then Inl PanicDivideByZero
         else offsets_loop randomBytes maxOffset (Suc i) todo
                (offsets @ [int64 (val mod uint64 maxOffset)]))"

text \<open>
  The bubble sort.  The inner loop compares the adjacent pairs \<open>j, j + 1\<close> for
  \<open>j < len - i - 1\<close> from left to right; \<open>bubble_pass n\<close> does that for the first \<open>n\<close> pairs.
\<close>

fun bubble_pass :: "nat \<Rightarrow> int list \<Rightarrow> int list" where
  "bubble_pass (Suc n) (x # y # zs) =
     (if x > y then y # bubble_pass n (x # zs) else x # bubble_pass n (y # zs))"
| "bubble_pass n xs = xs"

definition bubbleSort :: "int list \<Rightarrow> int list" where
  "bubbleSort offsets =
     foldl (\<lambda>xs i. bubble_pass (length xs - i - 1) xs) offsets [0..<length offsets - 1]"

text \<open>
  The cipher is a keystream \<open>ks\<close> read from position \<open>pos\<close>; the function consumes
  \<open>8 * numInjections\<close> bytes of it.  \<open>make\<close> panics on a negative length.
\<close>

definition generateInjectionOffsets ::
  "keystream \<Rightarrow> nat \<Rightarrow> int \<Rightarrow> int \<Rightarrow> int \<Rightarrow> CodecError + int list" where
  "generateInjectionOffsets ks pos fileSize numInjections minGap =
     (if numInjections < 0 then Inl PanicMakeSlice
      else
        let randomBytes = XORKeyStream ks pos (nat (numInjections * 8));
            maxOffset0 = fileSize - minGap;
            maxOffset = (if maxOffset0 < 0 then fileSize else maxOffset0)
        in case offsets_loop randomBytes maxOffset 0 (nat numInjections) [] of
             Inl e \<Rightarrow> Inl e
           | Inr offsets \<Rightarrow> Inr (bubbleSort offsets))"

subsection \<open>streamInjectNoise\<close>

text \<open>
  \<open>inFile.Read(buffer)\<close> with the 32 KiB buffer, which is allocated anew for every read: the
  successive reads of a file are its consecutive pieces of that size, the last one shorter.
\<close>

definition readBufferSize :: nat where
  "readBufferSize = 32 * 1024"

function fileReads :: "byte list \<Rightarrow> byte list list" where
  "fileReads bs =
     (if bs = [] then [] else take readBufferSize bs # fileReads (drop readBufferSize bs))"
  by pat_completeness auto
termination
  by (relation "measure length") (auto simp: readBufferSize_def)

text \<open>
  The state of the injection loop: the output written so far, \<open>currentOffset\<close>,
  \<open>offsetIdx\<close>, \<open>nextInjectionPoint\<close> and the position in the keystream.
\<close>

record InjectState =
  inj_out :: "byte list"
  currentOffset :: int
  offsetIdx :: nat
  nextInjectionPoint :: int
  cipherPos :: nat

text \<open>
  The inner \<open>for\<close> loop on one read: while the next injection point lies in the rest of the
  buffer, write the bytes before it, write a noise block, and move on.  Afterwards the rest of
  the buffer is written.
\<close>

function inject_read ::
  "keystream \<Rightarrow> int list \<Rightarrow> nat \<Rightarrow> byte list \<Rightarrow> InjectState \<Rightarrow> InjectState" where
  "inject_read ks offsets blockSize buffer st =
     (if offsetIdx st < length offsets \<and> nextInjectionPoint st \<ge> currentOffset st
         \<and> nextInjectionPoint st < currentOffset st + int (length buffer)
      then
        let relativePos = nat (nextInjectionPoint st - currentOffset st);
            out1 = (if relativePos > 0 then inj_out st @ take relativePos buffer else inj_out st);
            out2 = out1 @ XORKeyStream ks (cipherPos st) blockSize;
            idx = offsetIdx st + 1
        in inject_read ks offsets blockSize (drop relativePos buffer)
             (st\<lparr>inj_out := out2, currentOffset := nextInjectionPoint st, offsetIdx := idx,
                 nextInjectionPoint := (if idx < length offsets then offsets ! idx else - 1),
                 cipherPos := cipherPos st + blockSize\<rparr>)
      else
        st\<lparr>inj_out := (if length buffer > 0 then inj_out st @ buffer else inj_out st),
           currentOffset := currentOffset st + int (length buffer)\<rparr>)"
  by pat_completeness auto
termination
  by (relation "measure (\<lambda>(ks, offsets, blockSize, buffer, st). length offsets - offsetIdx st)") auto

definition streamInjectNoise ::
  "byte list \<Rightarrow> keystream \<Rightarrow> nat \<Rightarrow> int list \<Rightarrow> int \<Rightarrow> CodecError + byte list" where
  "streamInjectNoise inFile ks pos offsets blockSize =
     (if blockSize < 0 then Inl PanicMakeSlice
      else
        let st0 = \<lparr>inj_out = [], currentOffset = 0, offsetIdx = 0,
                   nextInjectionPoint = (if length offsets > 0 then offsets ! 0 else 0),
                   cipherPos = pos\<rparr>
        in Inr (inj_out (foldl (\<lambda>st buffer. inject_read ks offsets (nat blockSize) buffer st)
                           st0 (fileReads inFile))))"

subsection \<open>ObfuscateFile\<close>

text \<open>
  The result is the metadata, the processed size and the contents of the output file.
  \<open>targetOverhead / int64(defaultBlockSize)\<close> is Go's truncating division and panics on 0.
\<close>

definition ObfuscateFile ::
  "Libs \<Rightarrow> ObfConfig \<Rightarrow> byte list \<Rightarrow> byte list
     \<Rightarrow> CodecError + (ObfuscationMetadata \<times> int \<times> byte list)" where
  "ObfuscateFile libs cfg inFile seed =
     (let originalSize = int (length inFile) in
      case NewUnauthenticatedCipher libs seed of
        Inl e \<Rightarrow> Inl e
      | Inr cipher \<Rightarrow>
         (let targetOverhead = floatScale libs originalSize (defaultOverheadPct cfg) in
          if defaultBlockSize cfg = 0 then Inl PanicDivideByZero
          else
           (let numInjections0 = targetOverhead sdiv defaultBlockSize cfg;
                numInjections = (if numInjections0 = 0 then 1 else numInjections0)
            in (case generateInjectionOffsets cipher 0 originalSize numInjections
                       (defaultMinGap cfg) of
                  Inl e \<Rightarrow> Inl e
                | Inr injectionOffsets \<Rightarrow>
                   (case streamInjectNoise inFile cipher (nat (numInjections * 8))
                           injectionOffsets (defaultBlockSize cfg) of
                      Inl e \<Rightarrow> Inl e
                    | Inr outFile \<Rightarrow>
                        Inr (\<lparr>Algorithm = ''ChaCha20-DRBG'', Seed = base64Encode libs seed,
                              BlockSize = defaultBlockSize cfg,
                              OverheadPct = defaultOverheadPct cfg,
                              MinGap = defaultMinGap cfg\<rparr>,
                             int (length outFile), outFile))))))"

subsection \<open>DeobfuscateFile\<close>

definition adjustOffsetsForProcessedFile :: "int list \<Rightarrow> int \<Rightarrow> int list" where
  "adjustOffsetsForProcessedFile offsets blockSize =
     (if blockSize \<le> 0 \<or> length offsets = 0 then offsets
      else map (\<lambda>i. offsets ! i + int i * blockSize) [0..<length offsets])"

text \<open>
  The state of the removal loop across reads is the output, \<open>currentOffset\<close> and \<open>offsetIdx\<close>;
  within one read there is \<open>writeStart\<close> as well.  \<open>remove_read\<close> is the inner \<open>for\<close> loop on
  one read; it returns the state and the final \<open>writeStart\<close>.
\<close>

record RemoveState =
  rem_out :: "byte list"
  rem_currentOffset :: int
  rem_offsetIdx :: nat

function remove_read ::
  "int list \<Rightarrow> int \<Rightarrow> byte list \<Rightarrow> int \<Rightarrow> RemoveState \<Rightarrow> RemoveState \<times> int" where
  "remove_read offsets blockSize chunk writeStart st =
     (if rem_offsetIdx st < length offsets
      then
        let n = int (length chunk);
            noiseStart = offsets ! rem_offsetIdx st;
            noiseEnd = noiseStart + blockSize
        in if noiseStart \<ge> rem_currentOffset st \<and> noiseStart < rem_currentOffset st + n
           then
             let relativeNoiseStart = noiseStart - rem_currentOffset st;
                 out1 = (if relativeNoiseStart > writeStart
                         then rem_out st @ drop (nat writeStart) (take (nat relativeNoiseStart) chunk)
                         else rem_out st);
                 relativeNoiseEnd0 = noiseEnd - rem_currentOffset st;
                 relativeNoiseEnd = (if relativeNoiseEnd0 > n then n else relativeNoiseEnd0)
             in if noiseEnd \<le> rem_currentOffset st + n
                then remove_read offsets blockSize chunk relativeNoiseEnd
                       (st\<lparr>rem_out := out1, rem_offsetIdx := rem_offsetIdx st + 1\<rparr>)
                else (st\<lparr>rem_out := out1\<rparr>, relativeNoiseEnd)
           else if noiseStart < rem_currentOffset st
           then
             let writeStart1 =
                   (if noiseEnd > rem_currentOffset st
                    then (let skipUntil = noiseEnd - rem_currentOffset st
                          in if skipUntil > n then n else skipUntil)
                    else writeStart)
             in remove_read offsets blockSize chunk writeStart1
                  (st\<lparr>rem_offsetIdx := rem_offsetIdx st + 1\<rparr>)
           else (st, writeStart)
      else (st, writeStart))"
  by pat_completeness auto
termination
  by (relation "measure (\<lambda>(offsets, blockSize, chunk, writeStart, st). length offsets - rem_offsetIdx st)")
     auto

definition remove_step :: "int list \<Rightarrow> int \<Rightarrow> RemoveState \<Rightarrow> byte list \<Rightarrow> RemoveState" where
  "remove_step offsets blockSize st chunk =
     (case remove_read offsets blockSize chunk 0 st of
        (st1, writeStart) \<Rightarrow>
          st1\<lparr>rem_out := (if writeStart < int (length chunk)
                          then rem_out st1 @ drop (nat writeStart) chunk else rem_out st1),
              rem_currentOffset := rem_currentOffset st1 + int (length chunk)\<rparr>)"

definition streamRemoveNoise :: "byte list \<Rightarrow> int list \<Rightarrow> int \<Rightarrow> byte list" where
  "streamRemoveNoise inFile offsets blockSize =
     rem_out (foldl (remove_step offsets blockSize)
                \<lparr>rem_out = [], rem_currentOffset = 0, rem_offsetIdx = 0\<rparr> (fileReads inFile))"

text \<open>The metadata pointer is \<open>None\<close> for \<open>nil\<close>; the result is the contents of the output file.\<close>

definition DeobfuscateFile ::
  "Libs \<Rightarrow> byte list \<Rightarrow> ObfuscationMetadata option \<Rightarrow> int \<Rightarrow> CodecError + byte list" where
  "DeobfuscateFile libs inFile metadata originalSize =
     (case metadata of
        None \<Rightarrow> Inl MetadataRequired
      | Some md \<Rightarrow>
         (if originalSize \<le> 0 then Inl (InvalidOriginalSize originalSize)
          else if BlockSize md \<le> 0 then Inl (InvalidBlockSize (BlockSize md))
          else
           (case base64Decode libs (Seed md) of
              None \<Rightarrow> Inl SeedDecodeFailed
            | Some seed \<Rightarrow>
               (let processedSize = int (length inFile) in
                if originalSize > processedSize
                then Inl (OriginalExceedsProcessed originalSize processedSize)
                else
                 (case NewUnauthenticatedCipher libs seed of
                    Inl e \<Rightarrow> Inl e
                  | Inr cipher \<Rightarrow>
                     (let blockSize = BlockSize md;
                          noiseBytes = processedSize - originalSize
                      in if noiseBytes < 0 then Inl (NegativeNoiseBytes noiseBytes)
                         else if noiseBytes > 0 \<and> noiseBytes mod blockSize \<noteq> 0
                         then Inl (NoiseNotAligned noiseBytes blockSize)
                         else if noiseBytes > 0 \<and> noiseBytes div blockSize > 0
                         then (case generateInjectionOffsets cipher 0 originalSize
                                      (noiseBytes div blockSize) (MinGap md) of
                                 Inl e \<Rightarrow> Inl e
                               | Inr injectionOffsets \<Rightarrow>
                                   Inr (streamRemoveNoise inFile
                                          (adjustOffsetsForProcessedFile injectionOffsets blockSize)
                                          (BlockSize md)))
                         else Inr (streamRemoveNoise inFile [] (BlockSize md))))))))"

subsection \<open>Concrete libraries for evaluation\<close>

text \<open>
  Stand-ins for the library parameters, for evaluating the model on concrete inputs where
  the result does not depend on them: a keystream that counts, an encoding of bytes as
  characters, and the scaling in exact arithmetic.
\<close>

definition libs1 :: Libs where
  "libs1 = \<lparr>chacha20 = (\<lambda>key i. of_nat i),
            base64Encode = map (\<lambda>b. char_of (unat b)),
            base64Decode = (\<lambda>s. Some (map (\<lambda>c. of_nat (of_char c)) s)),
            floatScale = (\<lambda>n pct. \<lfloor>of_int n * (pct / 100)\<rfloor>)\<rparr>"

subsection \<open>Auxiliary definitions for the codec proofs\<close>

text \<open>
  \<open>settled i xs\<close>: the last \<open>i\<close> elements of \<open>xs\<close> are in ascending order and no smaller than
  the others (the state of the bubble sort after \<open>i\<close> passes).  \<open>injectionModulus\<close> is the
  modulus that \<open>generateInjectionOffsets\<close> uses when it is not zero, and \<open>keystreamValue ks pos i\<close>
  the \<open>i\<close>-th big-endian 64-bit value of the keystream from position \<open>pos\<close>.
\<close>

definition settled :: "nat \<Rightarrow> int list \<Rightarrow> bool" where
  "settled i xs \<longleftrightarrow>
     sorted (drop (length xs - i) xs)
     \<and> (\<forall>x\<in>set (take (length xs - i) xs). \<forall>y\<in>set (drop (length xs - i) xs). x \<le> y)"

definition injectionModulus :: "int \<Rightarrow> int \<Rightarrow> int" where
  "injectionModulus fileSize minGap = (if fileSize < minGap then fileSize else fileSize - minGap)"

definition keystreamValue :: "keystream \<Rightarrow> nat \<Rightarrow> nat \<Rightarrow> nat" where
  "keystreamValue ks pos i = BigEndianUint64 (XORKeyStream ks (pos + 8 * i) 8)"

definition keystream7 :: keystream where
  "keystream7 i = (if i = 7 then 7 else 0)"

text \<open>
  The codec without the streaming.  \<open>inject_spec ks B pos offs cur xs\<close> is the bytes \<open>xs\<close>, which
  start at position \<open>cur\<close> of the original file, with a block of \<open>B\<close> keystream bytes put in
  front of each of the positions \<open>offs\<close> (ascending), the keystream read from \<open>pos\<close>.
  \<open>remove_spec B adjs cur ys\<close> is the bytes \<open>ys\<close>, which start at position \<open>cur\<close> of the processed
  file, without the blocks of \<open>B\<close> bytes that start at the positions \<open>adjs\<close>.
  \<open>adjust_from B j offs\<close> moves the \<open>i\<close>-th offset up by \<open>j + i\<close> blocks.
\<close>

fun inject_spec :: "keystream \<Rightarrow> nat \<Rightarrow> nat \<Rightarrow> int list \<Rightarrow> int \<Rightarrow> byte list \<Rightarrow> byte list" where
  "inject_spec ks B pos [] cur xs = xs"
| "inject_spec ks B pos (off # offs) cur xs =
     take (nat (off - cur)) xs @ XORKeyStream ks pos B @
     inject_spec ks B (pos + B) offs off (drop (nat (off - cur)) xs)"

fun remove_spec :: "int \<Rightarrow> int list \<Rightarrow> int \<Rightarrow> byte list \<Rightarrow> byte list" where
  "remove_spec B [] cur ys = ys"
| "remove_spec B (a # adjs) cur ys =
     take (nat (a - cur)) ys @ remove_spec B adjs (a + B) (drop (nat (a + B - cur)) ys)"

fun adjust_from :: "int \<Rightarrow> nat \<Rightarrow> int list \<Rightarrow> int list" where
  "adjust_from B j [] = []"
| "adjust_from B j (off # offs) = (off + int j * B) # adjust_from B (Suc j) offs"
section \<open>Upload sessions and the upload handlers (package filehandlers)\<close>

text \<open>
  Bytes are 8-bit words; \<open>time.Time\<close> is a point on an integer time line.  The handlers are
  functions from the state of the world before the request to a response and the state after
  it.  The world holds what the handlers read and write: the sessions collection of the
  store, the temp files, and the background pipelines started with \<open>go\<close>.
\<close>

text \<open>
  Modelled from the spec: the declaration of \<open>UploadSession\<close> under \<open>src/\<close> predates the fields
  \<open>file_id\<close> and \<open>key_file_path\<close> that the handlers use; they are taken from section 3 of the
  spec.  \<open>processing_progress\<close> is a \<open>float64\<close> percentage, modelled as a real number.
\<close>

record UploadSession =
  ID :: ObjectID
  UserID :: ObjectID
  FileID :: string
  OriginalFilename :: string
  TempFilePath :: string
  TotalSize :: int
  UploadedSize :: int
  Status :: string
  ProcessingProgress :: real
  ErrorMessage :: string
  KeyFilePath :: string
  CreatedAt :: Time
  ExpiresAt :: Time
  CompletedAt :: "Time option"

record ProcessRequest =
  SessionID :: string
  Strategy :: ChunkingStrategy
  ManualChunkSizes :: "int list"

text \<open>A pipeline started by \<open>go processAndUploadFile(ctx, session, strategy, manualSizes, userID)\<close>.\<close>

record PipelineJob =
  job_session :: UploadSession
  job_strategy :: ChunkingStrategy
  job_manualSizes :: "int list"
  job_userID :: ObjectID

record World =
  StoreAvailable :: bool
  Sessions :: "ObjectID \<rightharpoonup> UploadSession"
  TempFiles :: "string \<rightharpoonup> byte list"
  Spawned :: "PipelineJob list"

datatype Body =
    ErrorText string
  | UploadIncomplete int int
  | UploadProgress int int
  | ProcessingStarted ObjectID
  | DriveNotAvailable int
  | DownloadStarted ObjectID

record Response =
  StatusCode :: nat
  Payload :: Body

definition httpError :: "string \<Rightarrow> nat \<Rightarrow> Response" where
  "httpError msg code = \<lparr>StatusCode = code, Payload = ErrorText msg\<rparr>"

definition httpOK :: "Body \<Rightarrow> Response" where
  "httpOK b = \<lparr>StatusCode = 200, Payload = b\<rparr>"

subsection \<open>Library functions the handlers call\<close>

text \<open>
  \<open>primitive.ObjectIDFromHex\<close>: exactly 24 hexadecimal digits, otherwise an error.
\<close>

definition hexDigit :: "char \<Rightarrow> nat option" where
  "hexDigit c =
     (let n = (of_char c :: nat) in
      if 48 \<le> n \<and> n \<le> 57 then Some (n - 48)
      else if 97 \<le> n \<and> n \<le> 102 then Some (n - 87)
      else if 65 \<le> n \<and> n \<le> 70 then Some (n - 55)
      else None)"

fun hexValue :: "nat \<Rightarrow> string \<Rightarrow> nat option" where
  "hexValue acc [] = Some acc"
| "hexValue acc (c # cs) =
     (case hexDigit c of None \<Rightarrow> None | Some d \<Rightarrow> hexValue (16 * acc + d) cs)"

definition ObjectIDFromHex :: "string \<Rightarrow> ObjectID option" where
  "ObjectIDFromHex s = (if length s \<noteq> 24 then None else hexValue 0 s)"

text \<open>
  \<open>strconv.ParseInt(s, 10, 64)\<close> with its two errors.  \<open>ParseUint\<close> reads decimal digits
  left to right; a character that is not a digit is a syntax error with value 0, and a value
  that leaves the 64-bit range is a range error with the largest value, reported at the digit
  where it happens.  \<open>ParseInt\<close> strips one sign, and on a range error returns the nearest
  \<open>int64\<close>.
\<close>

datatype NumError = ErrSyntax | ErrRange

fun parseDigits :: "nat \<Rightarrow> string \<Rightarrow> nat \<times> NumError option" where
  "parseDigits n [] = (n, None)"
| "parseDigits n (c # cs) =
     (let d = (of_char c :: nat) in
      if d < 48 \<or> 57 < d then (0, Some ErrSyntax)
      else if n \<ge> 2 ^ 64 div 10 + 1 then (2 ^ 64 - 1, Some ErrRange)
      else if n * 10 + (d - 48) \<ge> 2 ^ 64 then (2 ^ 64 - 1, Some ErrRange)
      else parseDigits (n * 10 + (d - 48)) cs)"

definition ParseUint :: "string \<Rightarrow> nat \<times> NumError option" where
  "ParseUint s = (if s = [] then (0, Some ErrSyntax) else parseDigits 0 s)"

definition ParseInt :: "string \<Rightarrow> int \<times> NumError option" where
  "ParseInt s =
     (if s = [] then (0, Some ErrSyntax)
      else
        let neg = (hd s = CHR ''-'');
            s1 = (if hd s = CHR ''+'' \<or> hd s = CHR ''-'' then tl s else s);
            (un, err) = ParseUint s1
        in if err = Some ErrSyntax then (0, err)
           else if \<not> neg \<and> un \<ge> 2 ^ 63 then (2 ^ 63 - 1, Some ErrRange)
           else if neg \<and> un > 2 ^ 63 then (- (2 ^ 63), Some ErrRange)
           else (if neg then - int un else int un, None))"

subsection \<open>The session layer (package fileprocessor, session.go) over the store\<close>

datatype SessionError = StoreError | SessionNotFound | Unauthorized | SessionExpired

definition GetSession :: "World \<Rightarrow> Time \<Rightarrow> ObjectID \<Rightarrow> ObjectID \<Rightarrow> SessionError + UploadSession" where
  "GetSession w now sessionID userID =
     (if \<not> StoreAvailable w then Inl StoreError
      else case Sessions w sessionID of
             None \<Rightarrow> Inl SessionNotFound
           | Some session \<Rightarrow>
               if UserID session \<noteq> userID then Inl Unauthorized
               else if now > ExpiresAt session then Inl SessionExpired
               else Inr session)"

definition sessionErrorText :: "SessionError \<Rightarrow> string" where
  "sessionErrorText e =
     (case e of StoreError \<Rightarrow> ''sessions collection not initialized''
      | SessionNotFound \<Rightarrow> ''session not found''
      | Unauthorized \<Rightarrow> ''unauthorized''
      | SessionExpired \<Rightarrow> ''session expired'')"

text \<open>
  \<open>UpdateOne\<close> with a \<open>$set\<close>: a session that no longer exists is left alone without error.
  The functions return \<open>None\<close> when the store is not available.
\<close>

definition UpdateSessionProgress :: "World \<Rightarrow> ObjectID \<Rightarrow> int \<Rightarrow> World option" where
  "UpdateSessionProgress w sessionID uploadedSize =
     (if \<not> StoreAvailable w then None
      else case Sessions w sessionID of
             None \<Rightarrow> Some w
           | Some s \<Rightarrow> Some (w\<lparr>Sessions := (Sessions w)(sessionID \<mapsto> s\<lparr>UploadedSize := uploadedSize\<rparr>)\<rparr>))"

definition UpdateSessionStatus ::
  "World \<Rightarrow> ObjectID \<Rightarrow> string \<Rightarrow> real \<Rightarrow> string \<Rightarrow> World option" where
  "UpdateSessionStatus w sessionID status progress errorMsg =
     (if \<not> StoreAvailable w then None
      else case Sessions w sessionID of
             None \<Rightarrow> Some w
           | Some s \<Rightarrow>
               let s1 = s\<lparr>Status := status, ProcessingProgress := progress\<rparr>;
                   s2 = (if errorMsg \<noteq> [] then s1\<lparr>ErrorMessage := errorMsg\<rparr> else s1)
               in Some (w\<lparr>Sessions := (Sessions w)(sessionID \<mapsto> s2)\<rparr>))"

subsection \<open>UploadChunkHandler\<close>

text \<open>
  The request as the handler reads it: the \<open>session_id\<close> query parameter, whether the
  multipart form parses, the \<open>chunk\<close> file part if present, and the \<open>offset\<close> form value
  (\<open>FormValue\<close> gives the empty string for a missing field).  The outcomes of the file
  system calls are the \<open>IOEnv\<close>: whether \<open>OpenFile\<close> or \<open>Seek\<close> fail, and whether \<open>io.Copy\<close>
  fails after writing some bytes.
\<close>

record ChunkRequest =
  cq_session_id :: string
  cq_form_ok :: bool
  cq_chunk :: "byte list option"
  cq_offset :: string

record IOEnv =
  OpenFails :: bool
  SeekFails :: bool
  CopyFailsAfter :: "nat option"

text \<open>Writing at an offset of a file; a gap before the offset reads as zero bytes.\<close>

definition writeAt :: "byte list \<Rightarrow> nat \<Rightarrow> byte list \<Rightarrow> byte list" where
  "writeAt file offset bs =
     take offset (file @ replicate (offset - length file) 0) @ bs @ drop (offset + length bs) file"

definition openTemp :: "World \<Rightarrow> string \<Rightarrow> World" where
  "openTemp w path =
     (case TempFiles w path of
        None \<Rightarrow> w\<lparr>TempFiles := (TempFiles w)(path \<mapsto> [])\<rparr>
      | Some _ \<Rightarrow> w)"

definition writeTemp :: "World \<Rightarrow> string \<Rightarrow> nat \<Rightarrow> byte list \<Rightarrow> World" where
  "writeTemp w path offset bs =
     w\<lparr>TempFiles := (TempFiles w)(path \<mapsto> writeAt (case TempFiles w path of None \<Rightarrow> [] | Some f \<Rightarrow> f) offset bs)\<rparr>"

definition UploadChunkHandler ::
  "World \<Rightarrow> ObjectID \<Rightarrow> Time \<Rightarrow> ChunkRequest \<Rightarrow> IOEnv \<Rightarrow> Response \<times> World" where
  "UploadChunkHandler w userID now r io =
     (if cq_session_id r = [] then (httpError ''session_id required'' 400, w)
      else
       (case ObjectIDFromHex (cq_session_id r) of
          None \<Rightarrow> (httpError ''invalid session_id'' 400, w)
        | Some sessionID \<Rightarrow>
           (case GetSession w now sessionID userID of
              Inl e \<Rightarrow> (httpError (sessionErrorText e) 400, w)
            | Inr session \<Rightarrow>
               (if \<not> cq_form_ok r then (httpError ''failed to parse form'' 400, w)
                else
                 (case cq_chunk r of
                    None \<Rightarrow> (httpError ''chunk file required'' 400, w)
                  | Some file \<Rightarrow>
                     (let offset = fst (ParseInt (cq_offset r)) in
                      if OpenFails io then (httpError ''failed to create temp file'' 500, w)
                      else
                       (let w1 = openTemp w (TempFilePath session) in
                        if offset < 0 \<or> SeekFails io
                        then (httpError ''failed to seek file'' 500, w1)
                        else
                         (case CopyFailsAfter io of
                            Some k \<Rightarrow>
                              (httpError ''failed to write chunk'' 500,
                               writeTemp w1 (TempFilePath session) (nat offset) (take k file))
                          | None \<Rightarrow>
                             (let written = int (length file);
                                  w2 = writeTemp w1 (TempFilePath session) (nat offset) file;
                                  highestByte = offset + written
                              in if highestByte > UploadedSize session
                                 then (httpOK (UploadProgress highestByte (TotalSize session)),
                                       (case UpdateSessionProgress w2 sessionID highestByte of
                                          None \<Rightarrow> w2
                                        | Some w3 \<Rightarrow> w3))
                                 else (httpOK (UploadProgress (UploadedSize session)
                                                  (TotalSize session)), w2))))))))))"


subsection \<open>FinalizeUploadHandler\<close>

text \<open>The request body is \<open>None\<close> when it does not decode as JSON.\<close>

definition FinalizeUploadHandler ::
  "World \<Rightarrow> ObjectID \<Rightarrow> Time \<Rightarrow> ProcessRequest option \<Rightarrow> Response \<times> World" where
  "FinalizeUploadHandler w userID now body =
     (case body of
        None \<Rightarrow> (httpError ''invalid request'' 400, w)
      | Some req \<Rightarrow>
         (case ObjectIDFromHex (SessionID req) of
            None \<Rightarrow> (httpError ''invalid session_id'' 400, w)
          | Some sessionID \<Rightarrow>
             (case GetSession w now sessionID userID of
                Inl e \<Rightarrow> (httpError (sessionErrorText e) 400, w)
              | Inr session \<Rightarrow>
                 (if UploadedSize session \<noteq> TotalSize session
                  then (\<lparr>StatusCode = 400,
                         Payload = UploadIncomplete (UploadedSize session) (TotalSize session)\<rparr>, w)
                  else
                   (case UpdateSessionStatus w sessionID ''processing'' 0 ''Starting...'' of
                      None \<Rightarrow> (httpError ''failed to update status'' 500, w)
                    | Some w1 \<Rightarrow>
                        (httpOK (ProcessingStarted sessionID),
                         w1\<lparr>Spawned := Spawned w1 @
                               [\<lparr>job_session = session, job_strategy = Strategy req,
                                 job_manualSizes = ManualChunkSizes req,
                                 job_userID = userID\<rparr>]\<rparr>))))))"

subsection \<open>A concrete session and world for the witnesses\<close>

definition session1 :: "string \<Rightarrow> int \<Rightarrow> UploadSession" where
  "session1 status uploaded =
     \<lparr>ID = 1, UserID = 7, FileID = ''f1'', OriginalFilename = ''a.bin'',
      TempFilePath = ''/tmp/1_a.bin'', TotalSize = 10, UploadedSize = uploaded, Status = status,
      ProcessingProgress = 0, ErrorMessage = [], KeyFilePath = [], CreatedAt = 0,
      ExpiresAt = 100, CompletedAt = None\<rparr>"

definition world1 :: "string \<Rightarrow> int \<Rightarrow> World" where
  "world1 status uploaded =
     \<lparr>StoreAvailable = True, Sessions = [1 \<mapsto> session1 status uploaded],
      TempFiles = Map.empty, Spawned = []\<rparr>"

definition hex1 :: string where
  "hex1 = ''000000000000000000000001''"

definition ioOK :: IOEnv where
  "ioOK = \<lparr>OpenFails = False, SeekFails = False, CopyFailsAfter = None\<rparr>"

definition chunkRequest1 :: "string \<Rightarrow> byte list \<Rightarrow> ChunkRequest" where
  "chunkRequest1 offset bs =
     \<lparr>cq_session_id = hex1, cq_form_ok = True, cq_chunk = Some bs, cq_offset = offset\<rparr>"

definition finalizeRequest1 :: ProcessRequest where
  "finalizeRequest1 = \<lparr>SessionID = hex1, Strategy = StrategyGreedy, ManualChunkSizes = []\<rparr>"

section \<open>Initiating a download (package downloadhandlers)\<close>

text \<open>
  Modelled from the spec: the declarations of \<open>StoredChunk\<close>, \<open>StoredFile\<close>, \<open>DownloadSession\<close>,
  of the \<open>drive_id\<close> field of a \<open>DriveAccount\<close> and of the \<open>file_id\<close> field of a \<open>KeyFile\<close> are not
  under \<open>src/\<close>; their fields are those of section 3 of the spec, with the names the handler
  uses.  Record fields carry a prefix because several records share field names.
\<close>

record StoredChunk =
  sc_ChunkID :: int
  sc_DriveAccountID :: ObjectID
  sc_DriveID :: string
  sc_DriveFileID :: string
  sc_Filename :: string
  sc_Size :: int
  sc_Checksum :: string
  sc_StartOffset :: int
  sc_EndOffset :: int

record StoredFile =
  sf_FileID :: string
  sf_UserID :: ObjectID
  sf_OriginalFilename :: string
  sf_OriginalSize :: int
  sf_ProcessedSize :: int
  sf_Chunks :: "StoredChunk list"
  sf_ObfuscationSeed :: string
  sf_Status :: string
  sf_CreatedAt :: Time

record ChunkMetadata =
  cm_ChunkID :: int
  cm_DriveAccountID :: string
  cm_DriveID :: string
  cm_DriveFileID :: string
  cm_Filename :: string
  cm_StartOffset :: int
  cm_EndOffset :: int
  cm_Size :: int
  cm_Checksum :: string

record KeyFile =
  kf_Version :: string
  kf_FileID :: string
  kf_OriginalFilename :: string
  kf_OriginalSize :: int
  kf_ProcessedSize :: int
  kf_Obfuscation :: ObfuscationMetadata
  kf_Chunks :: "ChunkMetadata list"
  kf_CreatedAt :: Time

record DriveAccount =
  da_ID :: ObjectID
  da_Provider :: string
  da_DisplayName :: string
  da_DriveID :: string

record DownloadSession =
  ds_ID :: ObjectID
  ds_UserID :: ObjectID
  ds_FileID :: string
  ds_OriginalFilename :: string
  ds_Status :: string
  ds_Progress :: real
  ds_TempFilePath :: string
  ds_ExpiresAt :: Time

text \<open>
  The part of the world the download handler reads and writes: the stored-file and
  download-session collections, the drive accounts linked by each user, and the background
  downloads started with \<open>go processDownload(...)\<close>, recorded by session id.
\<close>

record DownloadWorld =
  dw_StoreAvailable :: bool
  dw_StoredFiles :: "StoredFile list"
  dw_UserAccounts :: "ObjectID \<Rightarrow> DriveAccount list"
  dw_DownloadSessions :: "DownloadSession list"
  dw_SpawnedDownloads :: "ObjectID list"

text \<open>\<open>FindOne\<close> with the filter \<open>{user_id, file_id}\<close>: the first matching document, if any.\<close>

definition GetStoredFileByFileID ::
  "DownloadWorld \<Rightarrow> ObjectID \<Rightarrow> string \<Rightarrow> unit + StoredFile option" where
  "GetStoredFileByFileID w userID fileID =
     (if \<not> dw_StoreAvailable w then Inl ()
      else Inr (find (\<lambda>f. sf_UserID f = userID \<and> sf_FileID f = fileID) (dw_StoredFiles w)))"

definition ListUserDriveAccounts :: "DownloadWorld \<Rightarrow> ObjectID \<Rightarrow> unit + DriveAccount list" where
  "ListUserDriveAccounts w userID =
     (if \<not> dw_StoreAvailable w then Inl () else Inr (dw_UserAccounts w userID))"

text \<open>
  The check of one chunk against \<open>driveMap\<close> (the non-empty drive ids of the user's accounts)
  and \<open>accountMap\<close> (their account ids); the zero \<open>ObjectID\<close> is \<open>0\<close>.
\<close>

definition chunkDriveLinked :: "DriveAccount list \<Rightarrow> StoredChunk \<Rightarrow> bool" where
  "chunkDriveLinked userAccounts chunk =
     (let driveMap = map da_DriveID (filter (\<lambda>acc. da_DriveID acc \<noteq> []) userAccounts);
          accountMap = map da_ID userAccounts
      in (sc_DriveID chunk \<noteq> [] \<and> sc_DriveID chunk \<in> set driveMap)
         \<or> (sc_DriveAccountID chunk \<noteq> 0 \<and> sc_DriveAccountID chunk \<in> set accountMap))"

text \<open>
  The request as the handler reads it: whether the multipart form parses, and the \<open>key_file\<close>
  part (\<open>None\<close> when absent, \<open>Some None\<close> when it does not decode as a \<open>KeyFile\<close>).  \<open>newID\<close> is the
  fresh id that \<open>CreateDownloadSession\<close> gives the session, \<open>tempPath\<close> the path built from
  the temp directory, the user and the file id, \<open>expiry\<close> the configured session lifetime.
\<close>

record DownloadRequest =
  dq_form_ok :: bool
  dq_key_file :: "KeyFile option option"

definition InitiateDownloadHandler ::
  "DownloadWorld \<Rightarrow> ObjectID \<Rightarrow> Time \<Rightarrow> Time \<Rightarrow> ObjectID \<Rightarrow> string \<Rightarrow> DownloadRequest
     \<Rightarrow> Response \<times> DownloadWorld" where
  "InitiateDownloadHandler w userID now expiry newID tempPath r =
     (if \<not> dq_form_ok r then (httpError ''failed to parse form'' 400, w)
      else
       (case dq_key_file r of
          None \<Rightarrow> (httpError ''key_file required'' 400, w)
        | Some None \<Rightarrow> (httpError ''invalid key file format'' 400, w)
        | Some (Some key) \<Rightarrow>
           (if kf_FileID key = [] \<or> Seed (kf_Obfuscation key) = []
            then (httpError ''invalid key file: missing file_id or obfuscation seed'' 400, w)
            else
             (case GetStoredFileByFileID w userID (kf_FileID key) of
                Inl _ \<Rightarrow> (httpError ''failed to retrieve file info'' 500, w)
              | Inr None \<Rightarrow> (httpError ''file not found'' 404, w)
              | Inr (Some storedFile) \<Rightarrow>
                 (if sf_ObfuscationSeed storedFile \<noteq> Seed (kf_Obfuscation key)
                  then (httpError ''invalid key file: obfuscation seed mismatch'' 401, w)
                  else if sf_Status storedFile = ''incomplete''
                  then (httpError ''file incomplete: some drives may be unlinked'' 400, w)
                  else if sf_Status storedFile = ''deleted''
                  then (httpError ''file has been deleted'' 404, w)
                  else
                   (case ListUserDriveAccounts w userID of
                      Inl _ \<Rightarrow> (httpError ''failed to verify drives'' 500, w)
                    | Inr userAccounts \<Rightarrow>
                       (case find (\<lambda>chunk. \<not> chunkDriveLinked userAccounts chunk)
                               (sf_Chunks storedFile) of
                          Some chunk \<Rightarrow>
                            (\<lparr>StatusCode = 400,
                              Payload = DriveNotAvailable (sc_ChunkID chunk)\<rparr>, w)
                        | None \<Rightarrow>
                           (let session =
                                  \<lparr>ds_ID = newID, ds_UserID = userID, ds_FileID = kf_FileID key,
                                   ds_OriginalFilename = sf_OriginalFilename storedFile,
                                   ds_Status = ''downloading'', ds_Progress = 0,
                                   ds_TempFilePath = tempPath, ds_ExpiresAt = now + expiry\<rparr>
                            in (httpOK (DownloadStarted newID),
                                w\<lparr>dw_DownloadSessions := dw_DownloadSessions w @ [session],
                                  dw_SpawnedDownloads := dw_SpawnedDownloads w @ [newID]\<rparr>)))))))))"

subsection \<open>A concrete stored file and key file for the witness\<close>

definition obfuscation1 :: "string \<Rightarrow> ObfuscationMetadata" where
  "obfuscation1 seed =
     \<lparr>Algorithm = ''ChaCha20-DRBG'', Seed = seed, BlockSize = 256, OverheadPct = 8, MinGap = 4096\<rparr>"

definition keyFile1 :: "string \<Rightarrow> KeyFile" where
  "keyFile1 seed =
     \<lparr>kf_Version = ''1.0'', kf_FileID = ''f1'', kf_OriginalFilename = ''a.bin'',
      kf_OriginalSize = 10, kf_ProcessedSize = 266, kf_Obfuscation = obfuscation1 seed,
      kf_Chunks = [], kf_CreatedAt = 0\<rparr>"

definition storedFile1 :: StoredFile where
  "storedFile1 =
     \<lparr>sf_FileID = ''f1'', sf_UserID = 7, sf_OriginalFilename = ''a.bin'', sf_OriginalSize = 10,
      sf_ProcessedSize = 266, sf_Chunks = [], sf_ObfuscationSeed = ''c2VlZEE='',
      sf_Status = ''active'', sf_CreatedAt = 0\<rparr>"

definition downloadWorld1 :: DownloadWorld where
  "downloadWorld1 =
     \<lparr>dw_StoreAvailable = True, dw_StoredFiles = [storedFile1], dw_UserAccounts = (\<lambda>_. []),
      dw_DownloadSessions = [], dw_SpawnedDownloads = []\<rparr>"

definition downloadRequest1 :: "string \<Rightarrow> DownloadRequest" where
  "downloadRequest1 seed = \<lparr>dq_form_ok = True, dq_key_file = Some (Some (keyFile1 seed))\<rparr>"

section \<open>The processing pipeline (package filehandlers, processAndUploadFile)\<close>

text \<open>
  The pipeline runs in the background after finalize.  Its world is the session store, the
  stored-file collection, the key files written to disk, the calls made to the drives, and
  the temp-cleanup jobs scheduled.  The calls that leave the process (the random seed, the
  drive API, the manifest keeper, the account lookup, the checksum of a chunk file, formatting
  of names) are outcomes given by an environment \<open>PipeEnv\<close>, indexed by the position \<open>i\<close> of
  the chunk where a call is made once per chunk.  An error of such a call is the text that
  \<open>%v\<close> prints for it; \<open>env_codecErrorText\<close> and \<open>env_planErrorText\<close> give the texts of the
  errors of \<open>ObfuscateFile\<close> and \<open>CalculateChunkPlan\<close>, \<open>env_openError\<close> that of opening a temp
  file that does not exist, and \<open>env_uploadingText i n\<close> is the progress message
  \<open>"Uploading chunk i/n..."\<close>.  Removal of the local temp files by the deferred calls is left
  out.
\<close>

datatype DriveOp =
    UploadCall ObjectID string string
  | DeleteCall ObjectID string
  | ManifestCall ObjectID string

record PipeWorld =
  pw_World :: World
  pw_StoredFiles :: "StoredFile list"
  pw_KeyFiles :: "(string \<times> KeyFile) list"
  pw_DriveLog :: "DriveOp list"
  pw_CleanupScheduled :: "ObjectID list"

record PipeEnv =
  env_libs :: Libs
  env_config :: ObfConfig
  env_fshare :: float_share
  env_now :: Time
  env_seed :: "string + byte list"
  env_openError :: string
  env_codecErrorText :: "CodecError \<Rightarrow> string"
  env_driveSpaces :: "string + DriveSpaceInfo list"
  env_planErrorText :: "plan_error \<Rightarrow> string"
  env_splitError :: "string option"
  env_chunkPath :: "string \<Rightarrow> int \<Rightarrow> string"
  env_chunkFilename :: "string \<Rightarrow> int \<Rightarrow> string"
  env_uploadingText :: "nat \<Rightarrow> nat \<Rightarrow> string"
  env_upload :: "nat \<Rightarrow> string + string"
  env_checksum :: "nat \<Rightarrow> string option"
  env_account :: "nat \<Rightarrow> DriveAccount option"
  env_manifest :: "nat \<Rightarrow> (string option \<times> string) option"
  env_addToManifest :: "nat \<Rightarrow> bool"
  env_objectIDHex :: "ObjectID \<Rightarrow> string"
  env_keyFilePath :: "string \<Rightarrow> string \<Rightarrow> string"
  env_createStoredFileFails :: bool
  env_keyFileError :: "string option"

text \<open>
  The pipeline ignores the error of \<open>UpdateSessionStatus\<close>; \<open>CompleteSession\<close> and
  \<open>UpdateSessionKeyFile\<close> are further \<open>$set\<close> updates of the session.
\<close>

definition setStatus :: "PipeWorld \<Rightarrow> ObjectID \<Rightarrow> string \<Rightarrow> real \<Rightarrow> string \<Rightarrow> PipeWorld" where
  "setStatus w sessionID status progress errorMsg =
     (case UpdateSessionStatus (pw_World w) sessionID status progress errorMsg of
        None \<Rightarrow> w
      | Some w1 \<Rightarrow> w\<lparr>pw_World := w1\<rparr>)"

definition updateSession :: "PipeWorld \<Rightarrow> ObjectID \<Rightarrow> (UploadSession \<Rightarrow> UploadSession) \<Rightarrow> PipeWorld" where
  "updateSession w sessionID f =
     (if \<not> StoreAvailable (pw_World w) then w
      else case Sessions (pw_World w) sessionID of
             None \<Rightarrow> w
           | Some s \<Rightarrow> w\<lparr>pw_World := (pw_World w)\<lparr>Sessions := (Sessions (pw_World w))(sessionID \<mapsto> f s)\<rparr>\<rparr>)"

definition CompleteSession :: "PipeWorld \<Rightarrow> ObjectID \<Rightarrow> Time \<Rightarrow> PipeWorld" where
  "CompleteSession w sessionID now =
     updateSession w sessionID (\<lambda>s. s\<lparr>Status := ''complete'', CompletedAt := Some now\<rparr>)"

definition UpdateSessionKeyFile :: "PipeWorld \<Rightarrow> ObjectID \<Rightarrow> string \<Rightarrow> PipeWorld" where
  "UpdateSessionKeyFile w sessionID keyFilePath =
     updateSession w sessionID (\<lambda>s. s\<lparr>KeyFilePath := keyFilePath\<rparr>)"

text \<open>\<open>DeleteDriveFile\<close>: the call is recorded; its error is ignored by the pipeline.\<close>

definition DeleteDriveFile :: "PipeWorld \<Rightarrow> ObjectID \<Rightarrow> string \<Rightarrow> PipeWorld" where
  "DeleteDriveFile w accountID fileID = w\<lparr>pw_DriveLog := pw_DriveLog w @ [DeleteCall accountID fileID]\<rparr>"

text \<open>
  A run of the pipeline ends normally, or the goroutine panics (an index out of range, a
  panic of the codec); the deferred \<open>ScheduleCleanup\<close> runs in both cases.
\<close>

datatype PipeResult = Finished PipeWorld | Panicked PipeWorld

definition scheduleCleanup :: "ObjectID \<Rightarrow> PipeWorld \<Rightarrow> PipeWorld" where
  "scheduleCleanup sessionID w = w\<lparr>pw_CleanupScheduled := pw_CleanupScheduled w @ [sessionID]\<rparr>"

text \<open>
  Step 5, the loop over the chunk files.  It returns the stored chunks and the world, or the
  result of the run when the loop ends it.  \<open>n\<close> is \<open>len(chunkPaths)\<close>.  The cleanup loop
  \<open>for j := 0; j < i; j++\<close> reads \<open>storedChunks[j]\<close> and panics past the end of the slice.
\<close>

fun upload_loop ::
  "PipeEnv \<Rightarrow> UploadSession \<Rightarrow> ChunkPlan list \<Rightarrow> nat \<Rightarrow> nat \<Rightarrow> string list \<Rightarrow> StoredChunk list
     \<Rightarrow> PipeWorld \<Rightarrow> PipeResult + (StoredChunk list \<times> PipeWorld)" where
  "upload_loop env session plan n i [] storedChunks w = Inr (storedChunks, w)"
| "upload_loop env session plan n i (chunkPath # rest) storedChunks w =
     (if \<not> i < length plan then Inl (Panicked w)
      else
       (let chunk = plan ! i;
            progress = 70 + (20 * real i / real n);
            w1 = setStatus w (ID session) ''processing'' progress
                   (env_uploadingText env (i + 1) n);
            filename = env_chunkFilename env (FileID session) (ChunkID chunk)
        in (case env_upload env i of
              Inl err \<Rightarrow>
               (let w2 = foldl (\<lambda>w sc. DeleteDriveFile w (sc_DriveAccountID sc)
                                         (sc_DriveFileID sc))
                           w1 (take i storedChunks)
                in if \<not> i \<le> length storedChunks then Inl (Panicked w2)
                   else Inl (Finished (setStatus w2 (ID session) ''failed'' progress
                                         (''Upload failed: '' @ err))))
            | Inr driveFileID \<Rightarrow>
               (let w2 = w1\<lparr>pw_DriveLog := pw_DriveLog w1 @
                              [UploadCall (DriveAccountID chunk) filename driveFileID]\<rparr>
                in (case env_checksum env i of
                      None \<Rightarrow>
                        Inl (Finished (setStatus w2 (ID session) ''failed'' progress
                                         ''Checksum calculation failed''))
                    | Some checksum \<Rightarrow>
                       (case env_account env i of
                          None \<Rightarrow>
                            Inl (Finished (setStatus w2 (ID session) ''failed'' progress
                                             ''Failed to get drive account''))
                        | Some account \<Rightarrow>
                           (case env_manifest env i of
                              None \<Rightarrow>
                                Inl (Finished (setStatus w2 (ID session) ''failed'' progress
                                                 ''Failed to update manifest''))
                            | Some (manifest, manifestFileID) \<Rightarrow>
                               (let driveID =
                                      (case (da_DriveID account, manifest) of
                                         ([], Some manifestDriveID) \<Rightarrow> manifestDriveID
                                       | _ \<Rightarrow> da_DriveID account);
                                    storedChunk =
                                      \<lparr>sc_ChunkID = ChunkID chunk,
                                       sc_DriveAccountID = DriveAccountID chunk,
                                       sc_DriveID = driveID, sc_DriveFileID = driveFileID,
                                       sc_Filename = filename, sc_Size = Size chunk,
                                       sc_Checksum = checksum,
                                       sc_StartOffset = StartOffset chunk,
                                       sc_EndOffset = EndOffset chunk\<rparr>;
                                    w3 = (if env_addToManifest env i
                                          then w2\<lparr>pw_DriveLog := pw_DriveLog w2 @
                                                  [ManifestCall (DriveAccountID chunk)
                                                     manifestFileID]\<rparr>
                                          else w2)
                                in upload_loop env session plan n (Suc i) rest
                                     (storedChunks @ [storedChunk]) w3))))))))"

text \<open>
  Steps 1 to 4: seed and obfuscation, drive spaces, plan, split.  The result is the run's
  result when a step ends it, or what step 5 needs: the world, the metadata, the processed
  size, the plan and the chunk paths.
\<close>

definition prepare ::
  "PipeEnv \<Rightarrow> UploadSession \<Rightarrow> ChunkingStrategy \<Rightarrow> int list \<Rightarrow> PipeWorld
     \<Rightarrow> PipeResult + (PipeWorld \<times> ObfuscationMetadata \<times> int \<times> ChunkPlan list \<times> string list)" where
  "prepare env session strategy manualSizes w =
     (let sessionID = ID session;
          w1 = setStatus w sessionID ''processing'' 10 ''Injecting noise...''
      in (case env_seed env of
            Inl err \<Rightarrow>
              Inl (Finished (setStatus w1 sessionID ''failed'' 10
                               (''Failed to generate seed: '' @ err)))
          | Inr seed \<Rightarrow>
             (case TempFiles (pw_World w1) (TempFilePath session) of
                None \<Rightarrow>
                  Inl (Finished (setStatus w1 sessionID ''failed'' 10
                                   (''Obfuscation failed: '' @ env_openError env)))
              | Some inFile \<Rightarrow>
                 (case ObfuscateFile (env_libs env) (env_config env) inFile seed of
                    Inl e \<Rightarrow>
                     (if e = CodecError.PanicDivideByZero \<or> e = PanicMakeSlice
                      then Inl (Panicked w1)
                      else Inl (Finished (setStatus w1 sessionID ''failed'' 10
                                            (''Obfuscation failed: '' @ env_codecErrorText env e))))
                  | Inr (obfMetadata, processedSize, outFile) \<Rightarrow>
                     (let w2 = setStatus w1 sessionID ''processing'' 20 ''Checking drive spaces...''
                      in (case env_driveSpaces env of
                            Inl err \<Rightarrow>
                              Inl (Finished (setStatus w2 sessionID ''failed'' 20
                                               (''Failed to get drive spaces: '' @ err)))
                          | Inr driveSpaces \<Rightarrow>
                             (let w3 = setStatus w2 sessionID ''processing'' 30
                                         ''Calculating chunk distribution...''
                              in (case CalculateChunkPlan (env_fshare env) processedSize
                                         driveSpaces strategy manualSizes of
                                    Inl e \<Rightarrow>
                                     (if e = plan_error.PanicDivideByZero then Inl (Panicked w3)
                                      else Inl (Finished
                                             (setStatus w3 sessionID ''failed'' 30
                                                (''Chunking calculation failed: '' @
                                                 env_planErrorText env e))))
                                  | Inr plan \<Rightarrow>
                                     (let w4 = setStatus w3 sessionID ''processing'' 50
                                                 ''Splitting file into chunks...''
                                      in (case env_splitError env of
                                            Some err \<Rightarrow>
                                              Inl (Finished (setStatus w4 sessionID ''failed'' 50
                                                               (''File splitting failed: '' @ err)))
                                          | None \<Rightarrow>
                                              Inr (w4, obfMetadata, processedSize, plan,
                                                   map (\<lambda>chunk. env_chunkPath env (FileID session)
                                                                   (ChunkID chunk)) plan)))))))))))"

text \<open>Steps 6 to 8: the stored-file record, the key file, completion.\<close>

definition keyChunk :: "PipeEnv \<Rightarrow> StoredChunk \<Rightarrow> ChunkMetadata" where
  "keyChunk env sc =
     \<lparr>cm_ChunkID = sc_ChunkID sc, cm_DriveAccountID = env_objectIDHex env (sc_DriveAccountID sc),
      cm_DriveID = sc_DriveID sc, cm_DriveFileID = sc_DriveFileID sc, cm_Filename = sc_Filename sc,
      cm_StartOffset = sc_StartOffset sc, cm_EndOffset = sc_EndOffset sc, cm_Size = sc_Size sc,
      cm_Checksum = sc_Checksum sc\<rparr>"

definition commit ::
  "PipeEnv \<Rightarrow> UploadSession \<Rightarrow> ObjectID \<Rightarrow> ObfuscationMetadata \<Rightarrow> int \<Rightarrow> StoredChunk list
     \<Rightarrow> PipeWorld \<Rightarrow> PipeWorld" where
  "commit env session userID obfMetadata processedSize storedChunks w =
     (let sessionID = ID session;
          fileID = FileID session;
          w1 = setStatus w sessionID ''processing'' 93 ''Saving file metadata...'';
          storedFile = \<lparr>sf_FileID = fileID, sf_UserID = userID,
                         sf_OriginalFilename = OriginalFilename session,
                         sf_OriginalSize = TotalSize session, sf_ProcessedSize = processedSize,
                         sf_Chunks = storedChunks, sf_ObfuscationSeed = Seed obfMetadata,
                         sf_Status = ''active'', sf_CreatedAt = env_now env\<rparr>
      in if env_createStoredFileFails env
         then setStatus w1 sessionID ''failed'' 93 ''Failed to save file metadata''
         else
           let w2 = w1\<lparr>pw_StoredFiles := pw_StoredFiles w1 @ [storedFile]\<rparr>;
               w3 = setStatus w2 sessionID ''processing'' 95 ''Generating key file...'';
               keyFilePath = env_keyFilePath env (OriginalFilename session) fileID;
               keyFile = \<lparr>kf_Version = ''1.0'', kf_FileID = fileID,
                           kf_OriginalFilename = OriginalFilename session,
                           kf_OriginalSize = TotalSize session, kf_ProcessedSize = processedSize,
                           kf_Obfuscation = obfMetadata, kf_Chunks = map (keyChunk env) storedChunks,
                           kf_CreatedAt = env_now env\<rparr>
           in case env_keyFileError env of
                Some err \<Rightarrow>
                  setStatus w3 sessionID ''failed'' 95 (''Key file generation failed: '' @ err)
              | None \<Rightarrow>
                let w4 = w3\<lparr>pw_KeyFiles := pw_KeyFiles w3 @ [(keyFilePath, keyFile)]\<rparr>;
                    w5 = UpdateSessionKeyFile w4 sessionID keyFilePath;
                    w6 = CompleteSession w5 sessionID (env_now env)
                in setStatus w6 sessionID ''complete'' 100 [])"

definition mapResult :: "(PipeWorld \<Rightarrow> PipeWorld) \<Rightarrow> PipeResult \<Rightarrow> PipeResult" where
  "mapResult f r = (case r of Finished w \<Rightarrow> Finished (f w) | Panicked w \<Rightarrow> Panicked (f w))"

definition processAndUploadFile ::
  "PipeEnv \<Rightarrow> UploadSession \<Rightarrow> ChunkingStrategy \<Rightarrow> int list \<Rightarrow> ObjectID \<Rightarrow> PipeWorld \<Rightarrow> PipeResult" where
  "processAndUploadFile env session strategy manualSizes userID w =
     mapResult (scheduleCleanup (ID session))
       (case prepare env session strategy manualSizes w of
          Inl r \<Rightarrow> r
        | Inr (w4, obfMetadata, processedSize, plan, chunkPaths) \<Rightarrow>
           (let w5 = setStatus w4 (ID session) ''processing'' 70 ''Uploading chunks to drives...''
            in (case upload_loop env session plan (length chunkPaths) 0 chunkPaths [] w5 of
                  Inl r \<Rightarrow> r
                | Inr (storedChunks, w6) \<Rightarrow>
                    Finished (commit env session userID obfMetadata processedSize
                                storedChunks w6))))"


subsection \<open>What a run of the upload loop leaves in the drive log\<close>

text \<open>
  Chunk \<open>j\<close> goes through the loop body when the upload, the checksum, the account lookup and
  the manifest lookup succeed for it.
\<close>

definition chunkSucceeds :: "PipeEnv \<Rightarrow> nat \<Rightarrow> bool" where
  "chunkSucceeds env j =
     ((case env_upload env j of Inl _ \<Rightarrow> False | Inr _ \<Rightarrow> True)
      \<and> env_checksum env j \<noteq> None \<and> env_account env j \<noteq> None \<and> env_manifest env j \<noteq> None)"

definition allSucceed :: "PipeEnv \<Rightarrow> nat \<Rightarrow> bool" where
  "allSucceed env i = list_all (chunkSucceeds env) [0..<i]"

text \<open>The drive file id that the upload of chunk \<open>j\<close> returned.\<close>

definition driveFileIDOf :: "PipeEnv \<Rightarrow> nat \<Rightarrow> string" where
  "driveFileIDOf env j = (case env_upload env j of Inl _ \<Rightarrow> [] | Inr driveFileID \<Rightarrow> driveFileID)"

text \<open>The calls of the loop body for chunk \<open>j\<close>: the upload, and the manifest update.\<close>

definition uploadOps :: "PipeEnv \<Rightarrow> UploadSession \<Rightarrow> ChunkPlan list \<Rightarrow> nat \<Rightarrow> DriveOp list" where
  "uploadOps env session plan j =
     UploadCall (DriveAccountID (plan ! j))
       (env_chunkFilename env (FileID session) (ChunkID (plan ! j))) (driveFileIDOf env j) #
     (if env_addToManifest env j
      then [ManifestCall (DriveAccountID (plan ! j))
              (case env_manifest env j of None \<Rightarrow> [] | Some (manifest, manifestFileID) \<Rightarrow> manifestFileID)]
      else [])"

text \<open>The delete of chunk \<open>j\<close>: on its planned drive account, of the file its upload created.\<close>

definition deleteOp :: "PipeEnv \<Rightarrow> ChunkPlan list \<Rightarrow> nat \<Rightarrow> DriveOp" where
  "deleteOp env plan j = DeleteCall (DriveAccountID (plan ! j)) (driveFileIDOf env j)"

text \<open>
  The session can be written: the store is there and holds the session.  The session is
  failed with a message: it is in the store with status \<open>failed\<close> and that \<open>error_message\<close>.
\<close>

definition sessionLive :: "PipeWorld \<Rightarrow> ObjectID \<Rightarrow> bool" where
  "sessionLive w sessionID =
     (StoreAvailable (pw_World w) \<and> Sessions (pw_World w) sessionID \<noteq> None)"

definition sessionFailed :: "PipeWorld \<Rightarrow> ObjectID \<Rightarrow> string \<Rightarrow> bool" where
  "sessionFailed w sessionID msg =
     (case Sessions (pw_World w) sessionID of
        None \<Rightarrow> False
      | Some s \<Rightarrow> Status s = ''failed'' \<and> ErrorMessage s = msg)"

text \<open>The plan that steps 1 to 4 hand to the upload loop, when they all succeed.\<close>

definition plannedChunks ::
  "PipeEnv \<Rightarrow> UploadSession \<Rightarrow> ChunkingStrategy \<Rightarrow> int list \<Rightarrow> PipeWorld \<Rightarrow> ChunkPlan list option" where
  "plannedChunks env session strategy manualSizes w =
     (case prepare env session strategy manualSizes w of
        Inl r \<Rightarrow> None
      | Inr (w4, obfMetadata, processedSize, plan, chunkPaths) \<Rightarrow> Some plan)"

text \<open>How a run ended, and the world it left.\<close>

definition isFinished :: "PipeResult \<Rightarrow> bool" where
  "isFinished r = (case r of Finished w \<Rightarrow> True | Panicked w \<Rightarrow> False)"

definition worldOf :: "PipeResult \<Rightarrow> PipeWorld" where
  "worldOf r = (case r of Finished w \<Rightarrow> w | Panicked w \<Rightarrow> w)"

subsection \<open>A concrete run for the witness\<close>

text \<open>
  A 4-byte file, block size 2 and overhead 50 percent: one noise block, 6 bytes after
  obfuscation, planned greedily on two drives with 4 and 3 free bytes.  The first upload
  succeeds, the second fails.
\<close>

definition config2 :: ObfConfig where
  "config2 = \<lparr>defaultBlockSize = 2, defaultOverheadPct = 50, defaultMinGap = 1\<rparr>"

definition account2 :: DriveAccount where
  "account2 = \<lparr>da_ID = 11, da_Provider = ''google'', da_DisplayName = ''a'', da_DriveID = ''d''\<rparr>"

definition env2 :: PipeEnv where
  "env2 =
     \<lparr>env_libs = libs1, env_config = config2, env_fshare = (\<lambda>f t n. 0), env_now = 5,
      env_seed = Inr (replicate 32 0), env_openError = ''no such file'',
      env_codecErrorText = (\<lambda>e. ''codec''),
      env_driveSpaces = Inr [mkDrive 11 4, mkDrive 12 3],
      env_planErrorText = (\<lambda>e. ''plan''), env_splitError = None,
      env_chunkPath = (\<lambda>fileID chunkID. ''/tmp/'' @ fileID),
      env_chunkFilename = (\<lambda>fileID chunkID. fileID @ ''.2xpfm''),
      env_uploadingText = (\<lambda>i n. ''Uploading chunk...''),
      env_upload = (\<lambda>i. if i = 0 then Inr ''g0'' else Inl ''quota exceeded''),
      env_checksum = (\<lambda>i. Some ''c''), env_account = (\<lambda>i. Some account2),
      env_manifest = (\<lambda>i. Some (None, ''m'')), env_addToManifest = (\<lambda>i. True),
      env_objectIDHex = (\<lambda>i. ''x''), env_keyFilePath = (\<lambda>name fileID. name @ fileID),
      env_createStoredFileFails = False, env_keyFileError = None\<rparr>"

definition pipeWorld2 :: PipeWorld where
  "pipeWorld2 =
     \<lparr>pw_World = (world1 ''processing'' 10)\<lparr>TempFiles := [''/tmp/1_a.bin'' \<mapsto> [1, 2, 3, 4]]\<rparr>,
      pw_StoredFiles = [], pw_KeyFiles = [], pw_DriveLog = [], pw_CleanupScheduled = []\<rparr>"
lemmas strategy_defs =
  StrategyGreedy_def StrategyBalanced_def StrategyProportional_def StrategyManual_def

section \<open>Theorems about the chunk planner\<close>

subsection \<open>The loops as layouts of assignments\<close>

lemma layout_append: "layout off (ts @ us) = layout off ts @ layout (off + sum_list (map (\<lambda>t. snd (snd t)) ts)) us"
  by (induction ts arbitrary: off) (auto simp: algebra_simps)

lemma greedy_loop_eq:
  "greedy_loop ds chunks r off k =
     (chunks @ layout off (with_ids k (greedy_assign ds r)), r - sum_list (map snd (greedy_assign ds r)))"
  by (induction ds arbitrary: chunks r off k) (auto simp: Let_def min_def)

lemma balanced_loop_eq:
  "balanced_loop n t i ds chunks r off k =
     (chunks @ layout off (with_ids k (balanced_assign n t i ds r)), r - sum_list (map snd (balanced_assign n t i ds r)))"
  by (induction ds arbitrary: chunks r off k i) (auto simp: Let_def min_def)

lemma proportional_loop_eq:
  "proportional_loop fshare fileSize tot n i ds chunks a off k =
     (chunks @ layout off (with_ids k (proportional_assign fshare fileSize tot n i ds a)),
      a + sum_list (map snd (proportional_assign fshare fileSize tot n i ds a)))"
  by (induction ds arbitrary: chunks a off k i) (auto simp: Let_def min_def)

lemma manual_loop_eq:
  "manual_loop drives i ss chunks off = chunks @ layout off (manual_assign drives i ss)"
  by (induction ss arbitrary: chunks off i) auto



lemma layout_ChunkID: "map ChunkID (layout off ts) = map fst ts"
  by (induction off ts rule: layout.induct) (auto simp: mkChunk_def)

lemma layout_DriveAccountID: "map DriveAccountID (layout off ts) = map (\<lambda>t. AccountID (fst (snd t))) ts"
  by (induction off ts rule: layout.induct) (auto simp: mkChunk_def)

lemma layout_length: "length (layout off ts) = length ts"
  by (induction off ts rule: layout.induct) auto


lemma layout_member:
  "c \<in> set (layout off ts) \<Longrightarrow> \<exists>t\<in>set ts. DriveAccountID c = AccountID (fst (snd t)) \<and> Size c = snd (snd t) \<and> ChunkID c = fst t"
  by (induction off ts rule: layout.induct) (auto simp: mkChunk_def)






lemma length_with_ids: "length (with_ids k ps) = length ps"
  by (induction k ps rule: with_ids.induct) auto

lemma with_ids_snd: "map snd (with_ids k ps) = ps"
  by (induction k ps rule: with_ids.induct) auto

lemma with_ids_fst: "map fst (with_ids k ps) = map (\<lambda>j. k + int j) [0..<length ps]"
proof (induction k ps rule: with_ids.induct)
  case (1 chunkID)
  then show ?case by simp
next
  case (2 chunkID d s ps)
  have "[0..<length ((d, s) # ps)] = 0 # map Suc [0..<length ps]"
    by (simp add: upt_conv_Cons map_Suc_upt del: upt_Suc)
  with 2 show ?case by (simp add: o_def algebra_simps)
qed


lemma with_ids_member: "t \<in> set (with_ids k ps) \<Longrightarrow> snd t \<in> set ps"
  by (induction k ps rule: with_ids.induct) auto


lemma greedy_assign_member:
  "(d, s) \<in> set (greedy_assign ds r) \<Longrightarrow> d \<in> set ds \<and> s \<le> FreeSpace d \<and> (0 < FreeSpace d \<longrightarrow> 0 < s)"
  by (induction ds r rule: greedy_assign.induct) (auto split: if_splits)

lemma greedy_assign_sum: "0 \<le> r \<Longrightarrow> sum_list (map snd (greedy_assign ds r)) \<le> r"
  by (induction ds r rule: greedy_assign.induct) (auto simp: min_def)

lemma balanced_assign_member:
  "(d, s) \<in> set (balanced_assign n t i ds r) \<Longrightarrow> d \<in> set ds \<and> s \<le> FreeSpace d \<and> 0 < s"
  by (induction n t i ds r rule: balanced_assign.induct) (auto simp: Let_def split: if_splits)

lemma balanced_assign_sum: "0 \<le> r \<Longrightarrow> sum_list (map snd (balanced_assign n t i ds r)) \<le> r"
  by (induction n t i ds r rule: balanced_assign.induct) (auto simp: Let_def min_def)

lemma balanced_assign_subseq: "subseq (map fst (balanced_assign n t i ds r)) ds"
  by (induction n t i ds r rule: balanced_assign.induct) (auto simp: Let_def)

lemma proportional_assign_member:
  "(d, s) \<in> set (proportional_assign fshare fileSize tot n i ds a) \<Longrightarrow>
     d \<in> set ds \<and> s \<le> FreeSpace d \<and> 0 < s"
  by (induction fshare fileSize tot n i ds a rule: proportional_assign.induct)
     (auto simp: Let_def split: if_splits)

lemma proportional_assign_sum:
  "i + length ds = n \<Longrightarrow> ds \<noteq> [] \<Longrightarrow>
   a + sum_list (map (\<lambda>d. max 0 (min (fshare fileSize (FreeSpace d) tot) (FreeSpace d))) (butlast ds))
     \<le> fileSize \<Longrightarrow>
   a + sum_list (map snd (proportional_assign fshare fileSize tot n i ds a)) \<le> fileSize"
proof (induction ds arbitrary: i a)
  case Nil
  then show ?case by simp
next
  case (Cons d ds)
  show ?case
  proof (cases "ds = []")
    case True
    with Cons.prems(1) have "int i = int n - 1" by auto
    with True Cons.prems(3) show ?thesis by (simp add: Let_def min_def)
  next
    case False
    with Cons.prems(1) have ni: "int i \<noteq> int n - 1" by (cases ds) auto
    define c where "c = min (fshare fileSize (FreeSpace d) tot) (FreeSpace d)"
    have len: "Suc i + length ds = n" using Cons.prems(1) by simp
    from Cons.prems(3) False
    have bound: "a + max 0 c +
        sum_list (map (\<lambda>d. max 0 (min (fshare fileSize (FreeSpace d) tot) (FreeSpace d))) (butlast ds))
          \<le> fileSize"
      by (simp add: c_def algebra_simps)
    show ?thesis
    proof (cases "0 < c")
      case True
      then have "(a + c) + sum_list (map (\<lambda>d. max 0 (min (fshare fileSize (FreeSpace d) tot) (FreeSpace d))) (butlast ds)) \<le> fileSize"
        using bound by simp
      from Cons.IH[OF len False this] True ni
      show ?thesis by (simp add: Let_def c_def algebra_simps)
    next
      case F: False
      then have "a + sum_list (map (\<lambda>d. max 0 (min (fshare fileSize (FreeSpace d) tot) (FreeSpace d))) (butlast ds)) \<le> fileSize"
        using bound by simp
      from Cons.IH[OF len False this] F ni
      show ?thesis by (auto simp: Let_def c_def algebra_simps)
    qed
  qed
qed

lemma manual_validate_ok:
  "manual_validate drives i ss t0 = Inr t \<Longrightarrow>
     t = t0 + sum_list ss \<and> (\<forall>j<length ss. 0 \<le> ss ! j \<and> ss ! j \<le> FreeSpace (drives ! (i + j)))"
proof (induction drives i ss t0 rule: manual_validate.induct)
  case (1 drives i totalManual)
  then show ?case by simp
next
  case (2 drives i sz sizes totalManual)
  then show ?case
    by (auto split: if_splits simp: nth_Cons split: nat.splits)
qed

lemma manual_assign_member:
  "t \<in> set (manual_assign drives i ss) \<Longrightarrow>
     \<exists>j<length ss. t = (int (i + j) + 1, drives ! (i + j), ss ! j) \<and> 0 < ss ! j"
proof (induction ss arbitrary: i)
  case Nil
  then show ?case by simp
next
  case (Cons s ss)
  show ?case
  proof (cases "t = (int i + 1, drives ! i, s) \<and> 0 < s")
    case True
    then have "0 < length (s # ss) \<and> t = (int (i + 0) + 1, drives ! (i + 0), (s # ss) ! 0) \<and> 0 < (s # ss) ! 0"
      by simp
    then show ?thesis by blast
  next
    case False
    with Cons.prems have "t \<in> set (manual_assign drives (Suc i) ss)"
      by (auto split: if_splits)
    from Cons.IH[OF this] obtain j where
      j: "j < length ss" "t = (int (Suc i + j) + 1, drives ! (Suc i + j), ss ! j)" "0 < ss ! j"
      by blast
    then have "Suc j < length (s # ss) \<and> t = (int (i + Suc j) + 1, drives ! (i + Suc j), (s # ss) ! Suc j)
        \<and> 0 < (s # ss) ! Suc j"
      by simp
    then show ?thesis by blast
  qed
qed

lemma manual_assign_sum:
  "\<forall>s\<in>set ss. 0 \<le> s \<Longrightarrow> sum_list (map (\<lambda>t. snd (snd t)) (manual_assign drives i ss)) = sum_list ss"
  by (induction drives i ss rule: manual_assign.induct) auto

lemma set_sortDrivesDesc: "set (sortDrivesDesc ds) = set ds"
  by (simp add: sortDrivesDesc_def)




lemma greedy_plan_shape:
  assumes "calculateGreedyPlan fileSize avail = Inr plan"
    and "\<forall>d\<in>set avail. 0 < FreeSpace d"
  shows "\<exists>ps. plan = layout 0 (with_ids 1 ps) \<and> assigned_ok avail ps
      \<and> (0 \<le> fileSize \<longrightarrow> sum_list (map snd ps) = fileSize)"
proof -
  let ?ps = "greedy_assign (sortDrivesDesc avail) fileSize"
  from assms(1) have p: "plan = layout 0 (with_ids 1 ?ps)"
    and r: "fileSize - sum_list (map snd ?ps) \<le> 0"
    by (auto simp: calculateGreedyPlan_def greedy_loop_eq split: if_splits)
  have s: "0 \<le> fileSize \<longrightarrow> sum_list (map snd ?ps) = fileSize"
    using greedy_assign_sum[of fileSize "sortDrivesDesc avail"] r by auto
  have m: "assigned_ok avail ?ps"
    unfolding assigned_ok_def
  proof
    fix p assume "p \<in> set ?ps"
    then have "(fst p, snd p) \<in> set ?ps" by simp
    from greedy_assign_member[OF this] assms(2)
    show "fst p \<in> set avail \<and> 0 < snd p \<and> snd p \<le> FreeSpace (fst p)"
      by (auto simp: set_sortDrivesDesc)
  qed
  from p m s show ?thesis by blast
qed

lemma balanced_plan_shape:
  assumes "calculateBalancedPlan fileSize avail = Inr plan"
    and "\<forall>d\<in>set avail. 0 < FreeSpace d"
  shows "\<exists>ps. plan = layout 0 (with_ids 1 ps) \<and> assigned_ok avail ps
      \<and> (0 \<le> fileSize \<longrightarrow> sum_list (map snd ps) = fileSize)"
proof -
  let ?ps = "balanced_assign (length avail) (fileSize sdiv int (length avail)) 0 avail fileSize"
  show ?thesis
  proof (cases "0 < fileSize - sum_list (map snd ?ps)")
    case True
    with assms(1) have "calculateGreedyPlan fileSize avail = Inr plan"
      by (auto simp: calculateBalancedPlan_def Let_def balanced_loop_eq split: if_splits)
    then show ?thesis using assms(2) by (rule greedy_plan_shape)
  next
    case False
    with assms(1) have p: "plan = layout 0 (with_ids 1 ?ps)"
      by (auto simp: calculateBalancedPlan_def Let_def balanced_loop_eq split: if_splits)
    have s: "0 \<le> fileSize \<longrightarrow> sum_list (map snd ?ps) = fileSize"
      using balanced_assign_sum[of fileSize "length avail" "fileSize sdiv int (length avail)" 0 avail] False
      by auto
    have m: "assigned_ok avail ?ps"
      unfolding assigned_ok_def
    proof
      fix p assume "p \<in> set ?ps"
      then have "(fst p, snd p) \<in> set ?ps" by simp
      from balanced_assign_member[OF this]
      show "fst p \<in> set avail \<and> 0 < snd p \<and> snd p \<le> FreeSpace (fst p)" by auto
    qed
    from p m s show ?thesis by blast
  qed
qed

lemma proportional_plan_shape:
  assumes "calculateProportionalPlan fshare fileSize avail = Inr plan" and "avail \<noteq> []"
  shows "\<exists>ps. plan = layout 0 (with_ids 1 ps) \<and> assigned_ok avail ps
      \<and> (proportional_leading fshare fileSize avail \<le> fileSize \<longrightarrow> sum_list (map snd ps) = fileSize)"
proof -
  let ?tot = "sum_list (map FreeSpace avail)"
  let ?ps = "proportional_assign fshare fileSize ?tot (length avail) 0 avail 0"
  from assms(1) have p: "plan = layout 0 (with_ids 1 ?ps)"
    and r: "\<not> sum_list (map snd ?ps) < fileSize"
    by (auto simp: calculateProportionalPlan_def Let_def proportional_loop_eq split: if_splits)
  have s: "proportional_leading fshare fileSize avail \<le> fileSize \<longrightarrow> sum_list (map snd ?ps) = fileSize"
  proof
    assume "proportional_leading fshare fileSize avail \<le> fileSize"
    then have "0 + sum_list (map (\<lambda>d. max 0 (min (fshare fileSize (FreeSpace d) ?tot) (FreeSpace d)))
                 (butlast avail)) \<le> fileSize"
      by (simp add: proportional_leading_def)
    with assms(2) have "0 + sum_list (map snd ?ps) \<le> fileSize"
      by (intro proportional_assign_sum) auto
    with r show "sum_list (map snd ?ps) = fileSize" by simp
  qed
  have m: "assigned_ok avail ?ps"
    unfolding assigned_ok_def
  proof
    fix p assume "p \<in> set ?ps"
    then have "(fst p, snd p) \<in> set ?ps" by simp
    from proportional_assign_member[OF this]
    show "fst p \<in> set avail \<and> 0 < snd p \<and> snd p \<le> FreeSpace (fst p)" by auto
  qed
  from p m s show ?thesis by blast
qed

lemma manual_plan_shape:
  assumes "calculateManualPlan fileSize avail manualSizes = Inr plan"
  shows "\<exists>ts. plan = layout 0 ts
      \<and> (\<forall>t\<in>set ts. fst (snd t) \<in> set avail \<and> 0 < snd (snd t) \<and> snd (snd t) \<le> FreeSpace (fst (snd t)))
      \<and> sum_list (map (\<lambda>t. snd (snd t)) ts) = fileSize"
proof -
  let ?ts = "manual_assign avail 0 manualSizes"
  from assms obtain t where len: "length manualSizes = length avail"
    and v: "manual_validate avail 0 manualSizes 0 = Inr t" and t: "t = fileSize"
    and p: "plan = layout 0 ?ts"
    by (auto simp: calculateManualPlan_def manual_loop_eq split: if_splits sum.splits)
  from manual_validate_ok[OF v]
  have tot: "t = sum_list manualSizes"
    and rng: "\<forall>j<length manualSizes. 0 \<le> manualSizes ! j \<and> manualSizes ! j \<le> FreeSpace (avail ! j)"
    by auto
  from rng have nonneg: "\<forall>s\<in>set manualSizes. 0 \<le> s"
    by (auto simp: in_set_conv_nth)
  have s: "sum_list (map (\<lambda>t. snd (snd t)) ?ts) = fileSize"
    using manual_assign_sum[OF nonneg] tot t by simp
  have m: "\<forall>t\<in>set ?ts. fst (snd t) \<in> set avail \<and> 0 < snd (snd t) \<and> snd (snd t) \<le> FreeSpace (fst (snd t))"
  proof
    fix u assume "u \<in> set ?ts"
    from manual_assign_member[OF this] obtain j where
      j: "j < length manualSizes" "u = (int (0 + j) + 1, avail ! (0 + j), manualSizes ! j)" "0 < manualSizes ! j"
      by blast
    with rng len show "fst (snd u) \<in> set avail \<and> 0 < snd (snd u) \<and> snd (snd u) \<le> FreeSpace (fst (snd u))"
      by auto
  qed
  from p m s show ?thesis by blast
qed

lemma with_ids_assigned:
  assumes "assigned_ok avail ps"
  shows "\<forall>t\<in>set (with_ids k ps). fst (snd t) \<in> set avail \<and> 0 < snd (snd t) \<and> snd (snd t) \<le> FreeSpace (fst (snd t))"
  using assms with_ids_member unfolding assigned_ok_def by blast


lemma availableDrives_positive: "\<forall>d\<in>set (availableDrives driveSpaces). 0 < FreeSpace d"
  by (simp add: availableDrives_def)




subsection \<open>Balanced strategy\<close>

lemma sdiv_nonneg: "0 \<le> a \<Longrightarrow> 0 < b \<Longrightarrow> a sdiv b = a div (b::int)"
  by (simp add: signed_divide_int_def sgn_if)

lemma lead_zero:
  "\<forall>d\<in>set xs. 0 < FreeSpace d \<Longrightarrow>
     sum_list (map (\<lambda>d. min 0 (FreeSpace d)) xs) = 0 \<and>
     filter (\<lambda>p. 0 < snd p) (map (\<lambda>d. (d, min 0 (FreeSpace d))) xs) = []"
  by (induction xs) auto

lemma balanced_assign_char:
  assumes "i + length ds = n" and "ds \<noteq> []" and "0 \<le> t" and "int (length ds) * t \<le> r"
    and "\<forall>d\<in>set ds. 0 < FreeSpace d"
  shows "balanced_assign n t i ds r =
           filter (\<lambda>p. 0 < snd p)
             (map (\<lambda>d. (d, min t (FreeSpace d))) (butlast ds) @
              [(last ds, min (r - sum_list (map (\<lambda>d. min t (FreeSpace d)) (butlast ds)))
                             (FreeSpace (last ds)))])"
  using assms
proof (induction ds arbitrary: i r)
  case Nil
  then show ?case by simp
next
  case (Cons d ds)
  have "0 \<le> int (length (d # ds)) * t" using Cons.prems(3) by simp
  with Cons.prems(4) have r0: "0 \<le> r" by linarith
  show ?case
  proof (cases "ds = []")
    case True
    with Cons.prems(1) have "int i = int n - 1" by auto
    with True Cons.prems r0 show ?thesis by (auto simp: Let_def min_def)
  next
    case False
    with Cons.prems(1) have ni: "int i \<noteq> int n - 1" by (cases ds) auto
    have len: "Suc i + length ds = n" using Cons.prems(1) by simp
    have fd: "0 < FreeSpace d" using Cons.prems(5) by simp
    have pos: "\<forall>d\<in>set ds. 0 < FreeSpace d" using Cons.prems(5) by simp
    from False have l2: "2 \<le> int (length (d # ds))" by (cases ds) auto
    have tr: "int (length ds) * t + t \<le> r" using Cons.prems(4) by (simp add: algebra_simps)
    have "0 \<le> int (length ds) * t" using Cons.prems(3) by simp
    with tr have t_le: "t \<le> r" by linarith
    have "1 \<le> int (length ds)" using False by (cases ds) auto
    then have "t \<le> int (length ds) * t" using Cons.prems(3)
      by (metis mult_le_cancel_right1 mult.commute not_less)
    show ?thesis
    proof (cases "t = 0")
      case True
      with fd have c0: "min t (FreeSpace d) = 0" by simp
      show ?thesis
      proof (cases "r \<le> 0")
        case True
        with r0 have "r = 0" by simp
        have "\<forall>x\<in>set (butlast (d # ds)). 0 < FreeSpace x"
          using Cons.prems(5) by (meson in_set_butlastD)
        from lead_zero[OF this] \<open>t = 0\<close> \<open>r = 0\<close> have
          "sum_list (map (\<lambda>d. min t (FreeSpace d)) (butlast (d # ds))) = 0"
          "filter (\<lambda>p. 0 < snd p) (map (\<lambda>d. (d, min t (FreeSpace d))) (butlast (d # ds))) = []"
          by auto
        moreover have "0 < FreeSpace (last (d # ds))" using Cons.prems(5) by (meson last_in_set list.discI)
        ultimately show ?thesis using \<open>r = 0\<close> by (simp del: butlast.simps last.simps)
      next
        case F: False
        have le: "int (length ds) * t \<le> r" using True r0 by simp
        note IH = Cons.IH[OF len False Cons.prems(3) le pos]
        have lhs: "balanced_assign n t i (d # ds) r = balanced_assign n t (Suc i) ds r"
          using F ni c0 by (simp add: Let_def)
        have rhs: "filter (\<lambda>p. 0 < snd p)
             (map (\<lambda>d. (d, min t (FreeSpace d))) (butlast (d # ds)) @
              [(last (d # ds), min (r - sum_list (map (\<lambda>d. min t (FreeSpace d)) (butlast (d # ds))))
                             (FreeSpace (last (d # ds))))]) =
            filter (\<lambda>p. 0 < snd p)
             (map (\<lambda>d. (d, min t (FreeSpace d))) (butlast ds) @
              [(last ds, min (r - sum_list (map (\<lambda>d. min t (FreeSpace d)) (butlast ds)))
                             (FreeSpace (last ds)))])"
          using False c0 by simp
        show ?thesis unfolding lhs rhs by (rule IH)
      qed
    next
      case F: False
      with Cons.prems(3) have tp: "0 < t" by simp
      define c where "c = min t (FreeSpace d)"
      have cp: "0 < c" "c \<le> t" using tp fd by (auto simp: c_def)
      have rp: "\<not> r \<le> 0" using t_le tp by simp
      have cr: "min c r = c" using cp t_le by simp
      have le: "int (length ds) * t \<le> r - c" using tr cp by linarith
      note IH = Cons.IH[OF len False Cons.prems(3) le pos]
      have lhs: "balanced_assign n t i (d # ds) r = (d, c) # balanced_assign n t (Suc i) ds (r - c)"
        using rp ni cp cr by (simp add: Let_def c_def[symmetric])
      have rhs: "filter (\<lambda>p. 0 < snd p)
             (map (\<lambda>d. (d, min t (FreeSpace d))) (butlast (d # ds)) @
              [(last (d # ds), min (r - sum_list (map (\<lambda>d. min t (FreeSpace d)) (butlast (d # ds))))
                             (FreeSpace (last (d # ds))))]) =
            (d, c) # filter (\<lambda>p. 0 < snd p)
             (map (\<lambda>d. (d, min t (FreeSpace d))) (butlast ds) @
              [(last ds, min (r - c - sum_list (map (\<lambda>d. min t (FreeSpace d)) (butlast ds)))
                             (FreeSpace (last ds)))])"
        using False cp by (simp add: c_def[symmetric] algebra_simps)
      show ?thesis unfolding lhs rhs using IH by simp
    qed
  qed
qed


lemma zip_map_self: "zip xs (map f xs) = map (\<lambda>x. (x, f x)) xs"
  by (induction xs) auto

lemma layout_with_ids_accounts:
  "map DriveAccountID (layout off (with_ids k ps)) = map (\<lambda>p. AccountID (fst p)) ps"
  by (induction k ps arbitrary: off rule: with_ids.induct) (auto simp: mkChunk_def)

lemma balanced_offers_fst:
  "drives \<noteq> [] \<Longrightarrow> map fst (balanced_offers fileSize drives) = drives"
  by (simp add: balanced_offers_def balanced_lead_def zip_map_self o_def)

lemma subseq_availableDrives: "subseq (availableDrives driveSpaces) driveSpaces"
  by (simp add: availableDrives_def)

lemma sum_filter_pos:
  "\<forall>p\<in>set ps. (0::int) \<le> snd p \<Longrightarrow>
     sum_list (map snd (filter (\<lambda>p. 0 < snd p) ps)) = sum_list (map snd ps)"
  by (induction ps) auto

lemma sum_min_le: "0 \<le> t \<Longrightarrow> sum_list (map (\<lambda>d. min t (FreeSpace d)) xs) \<le> int (length xs) * t"
  by (induction xs) (auto simp: algebra_simps)

lemma calculateBalancedPlan_char:
  assumes "0 \<le> fileSize" and "avail \<noteq> []" and "\<forall>d\<in>set avail. 0 < FreeSpace d"
  shows "calculateBalancedPlan fileSize avail =
           (if balanced_rest fileSize avail \<le> FreeSpace (last avail)
            then Inr (number_chunks (filter (\<lambda>p. 0 < snd p) (balanced_offers fileSize avail)))
            else calculateGreedyPlan fileSize avail)"
proof -
  let ?n = "length avail"
  let ?t = "fileSize div int ?n"
  let ?L = "map (\<lambda>d. (d, min ?t (FreeSpace d))) (butlast avail)"
  let ?S = "sum_list (map (\<lambda>d. min ?t (FreeSpace d)) (butlast avail))"
  let ?m = "min (fileSize - ?S) (FreeSpace (last avail))"
  have n: "0 < int ?n" using assms(2) by simp
  have t: "fileSize sdiv int ?n = ?t" using assms(1) n by (rule sdiv_nonneg)
  have t0: "0 \<le> ?t" using assms(1) n by (simp add: pos_imp_zdiv_nonneg_iff)
  have le: "int ?n * ?t \<le> fileSize"
    using mult_div_mod_eq[of "int ?n" fileSize] pos_mod_sign[OF n, of fileSize] by linarith
  have A: "balanced_assign ?n ?t 0 avail fileSize = filter (\<lambda>p. 0 < snd p) (?L @ [(last avail, ?m)])"
    using balanced_assign_char[of 0 avail ?n ?t fileSize] assms(2,3) t0 le by simp
  have "?S \<le> int (length (butlast avail)) * ?t" using t0 by (rule sum_min_le)
  also have "\<dots> = int ?n * ?t - ?t"
  proof -
    have "int (length (butlast avail)) = int ?n - 1" using assms(2) by (cases avail rule: rev_cases) auto
    then show ?thesis by (simp add: algebra_simps)
  qed
  finally have rest: "?t \<le> fileSize - ?S" using le by linarith
  have fl: "0 < FreeSpace (last avail)" using assms(2,3) by (meson last_in_set)
  have m0: "0 \<le> ?m" using rest t0 fl by simp
  have nonneg: "\<forall>p\<in>set (?L @ [(last avail, ?m)]). 0 \<le> snd p"
  proof
    fix p assume "p \<in> set (?L @ [(last avail, ?m)])"
    then consider d where "d \<in> set (butlast avail)" "p = (d, min ?t (FreeSpace d))" | "p = (last avail, ?m)"
      by auto
    then show "0 \<le> snd p"
    proof cases
      case 1
      then have "d \<in> set avail" by (meson in_set_butlastD)
      with assms(3) have "0 < FreeSpace d" by simp
      with t0 1 show ?thesis by simp
    next
      case 2
      with m0 show ?thesis by simp
    qed
  qed
  have sum: "sum_list (map snd (balanced_assign ?n ?t 0 avail fileSize)) = ?S + ?m"
    unfolding A sum_filter_pos[OF nonneg] by (simp add: o_def)
  have R: "balanced_rest fileSize avail = fileSize - ?S"
    by (simp add: balanced_rest_def balanced_lead_def balanced_target_def)
  have O: "balanced_offers fileSize avail = ?L @ [(last avail, fileSize - ?S)]"
    by (simp add: balanced_offers_def balanced_lead_def balanced_rest_def balanced_target_def zip_map_self)
  show ?thesis
  proof (cases "fileSize - ?S \<le> FreeSpace (last avail)")
    case True
    then have m: "?m = fileSize - ?S" by simp
    have "calculateBalancedPlan fileSize avail =
            Inr (layout 0 (with_ids 1 (balanced_assign ?n ?t 0 avail fileSize)))"
      using assms(2) sum m by (simp add: calculateBalancedPlan_def Let_def t balanced_loop_eq)
    also have "\<dots> = Inr (number_chunks (filter (\<lambda>p. 0 < snd p) (balanced_offers fileSize avail)))"
      unfolding A O m number_chunks_def ..
    finally show ?thesis using True R by simp
  next
    case False
    then have m: "?m = FreeSpace (last avail)" by simp
    have "calculateBalancedPlan fileSize avail = calculateGreedyPlan fileSize avail"
      using assms(2) sum m False by (simp add: calculateBalancedPlan_def Let_def t balanced_loop_eq)
    then show ?thesis using False R by simp
  qed
qed


section \<open>Rounding error of the float64 share\<close>

subsection \<open>The binade and the rounding error\<close>






lemma roundToEven_int [simp]: "roundToEven (of_int m) = m"
  by (simp add: roundToEven_def)







lemma float64_zero [simp]: "float64 0 = 0"
  by (simp add: float64_def)

subsection \<open>The share of a drive and the shares of the leading drives\<close>





subsection \<open>The share at concrete sizes\<close>















subsection \<open>Claim C3: a returned plan partitions the file\<close>



subsection \<open>Claim C7: when the balanced strategy falls back to greedy\<close>

text \<open>
  Claim C7 as stated fails: an assignment that exceeds its drive's free space is clamped to
  that free space, and the shortfall moves on to the last drive.  With file size 10 and drives
  of free space 2 and 100 the target is 5, which exceeds the first drive's 2; the balanced
  plan \<open>[2, 8]\<close> in input order is returned, not the greedy plan, which puts all 10 bytes on
  the second drive.
\<close>

theorem C7_no_fallback_counterexample:
  "FreeSpace (mkDrive 1 2) < 10 div 2
   \<and> CalculateChunkPlan exact_share 10 [mkDrive 1 2, mkDrive 2 100] StrategyBalanced []
       = Inr [\<lparr>ChunkID = 1, DriveAccountID = 1, Size = 2, StartOffset = 0, EndOffset = 2\<rparr>,
              \<lparr>ChunkID = 2, DriveAccountID = 2, Size = 8, StartOffset = 2, EndOffset = 10\<rparr>]
   \<and> calculateGreedyPlan 10 [mkDrive 1 2, mkDrive 2 100]
       = Inr [\<lparr>ChunkID = 1, DriveAccountID = 2, Size = 10, StartOffset = 0, EndOffset = 10\<rparr>]"
  by (simp add: CalculateChunkPlan_def availableDrives_def mkDrive_def calculateBalancedPlan_def
        calculateGreedyPlan_def sortDrivesDesc_def mkChunk_def strategy_defs Let_def
        signed_divide_int_def)

text \<open>
  Claim C7, amended.  With \<open>D\<close> available drives and target \<open>\<lfloor>file_size / D\<rfloor>\<close>, each of the
  first \<open>D - 1\<close> drives is offered \<open>min target free_space\<close> (\<open>balanced_lead\<close>) and the last drive
  the rest of the file (\<open>balanced_rest\<close>); offers of size 0 are dropped and the others are
  numbered from 1 with offsets by prefix sum.  The planner falls back to greedy on the same
  available drives exactly when that rest exceeds the last drive's free space.  The plan
  produced without fallback keeps the drives in input order.
\<close>

theorem C7_balanced_fallback_only_on_shortfall:
  assumes "0 \<le> fileSize"
    and "availableDrives driveSpaces \<noteq> []"
    and "fileSize \<le> sum_list (map FreeSpace (availableDrives driveSpaces))"
  shows "CalculateChunkPlan fshare fileSize driveSpaces StrategyBalanced manualSizes =
           (if balanced_rest fileSize (availableDrives driveSpaces)
                 \<le> FreeSpace (last (availableDrives driveSpaces))
            then Inr (number_chunks (filter (\<lambda>p. 0 < snd p)
                        (balanced_offers fileSize (availableDrives driveSpaces))))
            else calculateGreedyPlan fileSize (availableDrives driveSpaces))
       \<and> subseq (map DriveAccountID (number_chunks (filter (\<lambda>p. 0 < snd p)
                        (balanced_offers fileSize (availableDrives driveSpaces)))))
                 (map AccountID driveSpaces)"
proof -
  let ?avail = "availableDrives driveSpaces"
  have "CalculateChunkPlan fshare fileSize driveSpaces StrategyBalanced manualSizes =
          calculateBalancedPlan fileSize ?avail"
    using assms(2,3) by (simp add: CalculateChunkPlan_def Let_def strategy_defs)
  then have 1: "CalculateChunkPlan fshare fileSize driveSpaces StrategyBalanced manualSizes =
           (if balanced_rest fileSize ?avail \<le> FreeSpace (last ?avail)
            then Inr (number_chunks (filter (\<lambda>p. 0 < snd p) (balanced_offers fileSize ?avail)))
            else calculateGreedyPlan fileSize ?avail)"
    using calculateBalancedPlan_char[OF assms(1,2) availableDrives_positive] by simp
  have "subseq (filter (\<lambda>p. 0 < snd p) (balanced_offers fileSize ?avail)) (balanced_offers fileSize ?avail)"
    by simp
  then have "subseq (map fst (filter (\<lambda>p. 0 < snd p) (balanced_offers fileSize ?avail)))
                    (map fst (balanced_offers fileSize ?avail))"
    by (rule subseq_map)
  then have "subseq (map fst (filter (\<lambda>p. 0 < snd p) (balanced_offers fileSize ?avail))) ?avail"
    using balanced_offers_fst[OF assms(2)] by simp
  then have "subseq (map fst (filter (\<lambda>p. 0 < snd p) (balanced_offers fileSize ?avail))) driveSpaces"
    using subseq_availableDrives subseq_order.order_trans by blast
  then have "subseq (map AccountID (map fst (filter (\<lambda>p. 0 < snd p) (balanced_offers fileSize ?avail))))
                    (map AccountID driveSpaces)"
    by (rule subseq_map)
  then have 2: "subseq (map DriveAccountID (number_chunks (filter (\<lambda>p. 0 < snd p)
                        (balanced_offers fileSize ?avail)))) (map AccountID driveSpaces)"
    by (simp add: number_chunks_def layout_with_ids_accounts o_def)
  from 1 2 show ?thesis by blast
qed

theorem C7_balanced_fallback_only_on_shortfall_witness:
  "(0::int) \<le> 10
   \<and> availableDrives [mkDrive 1 2, mkDrive 2 100] \<noteq> []
   \<and> 10 \<le> sum_list (map FreeSpace (availableDrives [mkDrive 1 2, mkDrive 2 100]))
   \<and> balanced_rest 10 (availableDrives [mkDrive 1 2, mkDrive 2 100]) = 8
   \<and> CalculateChunkPlan exact_share 10 [mkDrive 1 2, mkDrive 2 100] StrategyBalanced []
       = Inr (number_chunks (filter (\<lambda>p. 0 < snd p)
               (balanced_offers 10 (availableDrives [mkDrive 1 2, mkDrive 2 100]))))"
proof -
  have size: "(0::int) \<le> 10" by simp
  have ne: "availableDrives [mkDrive 1 2, mkDrive 2 100] \<noteq> []"
    by (simp add: availableDrives_def mkDrive_def)
  have space: "10 \<le> sum_list (map FreeSpace (availableDrives [mkDrive 1 2, mkDrive 2 100]))"
    by (simp add: availableDrives_def mkDrive_def)
  have rest: "balanced_rest 10 (availableDrives [mkDrive 1 2, mkDrive 2 100]) = 8"
    by (simp add: balanced_rest_def balanced_lead_def balanced_target_def availableDrives_def
          mkDrive_def)
  have last: "FreeSpace (last (availableDrives [mkDrive 1 2, mkDrive 2 100])) = 100"
    by (simp add: availableDrives_def mkDrive_def)
  from C7_balanced_fallback_only_on_shortfall[OF size ne space, of exact_share "[]"] rest last
  have "CalculateChunkPlan exact_share 10 [mkDrive 1 2, mkDrive 2 100] StrategyBalanced []
       = Inr (number_chunks (filter (\<lambda>p. 0 < snd p)
               (balanced_offers 10 (availableDrives [mkDrive 1 2, mkDrive 2 100]))))"
    by simp
  with size ne space rest show ?thesis by blast
qed

text \<open>
  When every offer fits (the target fits each of the first \<open>D - 1\<close> drives and the remainder
  fits the last), the first \<open>D - 1\<close> drives get exactly the target and the last drive absorbs
  the remainder.
\<close>

lemma balanced_all_fit:
  assumes "\<forall>d\<in>set (butlast drives). balanced_target fileSize drives \<le> FreeSpace d"
  shows "balanced_lead fileSize drives
           = replicate (length drives - 1) (balanced_target fileSize drives)
       \<and> balanced_rest fileSize drives
           = fileSize - int (length drives - 1) * balanced_target fileSize drives"
proof -
  have "balanced_lead fileSize drives = map (\<lambda>d. balanced_target fileSize drives) (butlast drives)"
    unfolding balanced_lead_def using assms by (intro map_cong) auto
  then have l: "balanced_lead fileSize drives
           = replicate (length drives - 1) (balanced_target fileSize drives)"
    by (simp add: map_replicate_const)
  then show ?thesis by (simp add: balanced_rest_def sum_list_replicate)
qed
subsection \<open>Claim C8: chunk ids\<close>

text \<open>
  Claim C8 (chunk ids are exactly \<open>1..k\<close> in every returned plan, also for a manual size
  vector with zero entries).  The manual strategy numbers a chunk by the index of its drive
  (\<open>ChunkID: i + 1\<close>) and skips entries of size 0, so a zero entry leaves a gap: with two
  drives of free space 10, file size 10 and manual sizes \<open>[0, 10]\<close> the only chunk of the
  returned plan carries chunk id 2, where the claim requires id 1.
\<close>

theorem C8_manual_zero_entry_leaves_gap:
  "CalculateChunkPlan fshare 10 [mkDrive 1 10, mkDrive 2 10] StrategyManual [0, 10]
     = Inr [\<lparr>ChunkID = 2, DriveAccountID = 2, Size = 10, StartOffset = 0, EndOffset = 10\<rparr>]"
  by (simp add: CalculateChunkPlan_def availableDrives_def mkDrive_def calculateManualPlan_def
        mkChunk_def strategy_defs)

text \<open>
  The other three strategies number with a running counter: their plans carry the ids
  \<open>1..k\<close> in emission order, and no plan of any strategy has an entry of size 0.
\<close>

lemma planner_chunk_ids_dense:
  assumes "CalculateChunkPlan fshare fileSize driveSpaces strategy manualSizes = Inr plan"
    and "strategy \<noteq> StrategyManual"
  shows "map ChunkID plan = map (\<lambda>j. 1 + int j) [0..<length plan]"
proof -
  let ?avail = "availableDrives driveSpaces"
  from assms(1) have ne: "?avail \<noteq> []"
    by (auto simp: CalculateChunkPlan_def Let_def split: if_splits)
  note pos = availableDrives_positive[of driveSpaces]
  from assms ne consider
      (greedy) "calculateGreedyPlan fileSize ?avail = Inr plan"
    | (balanced) "calculateBalancedPlan fileSize ?avail = Inr plan"
    | (proportional) "calculateProportionalPlan fshare fileSize ?avail = Inr plan"
    by (auto simp: CalculateChunkPlan_def Let_def split: if_splits)
  then obtain ps where "plan = layout 0 (with_ids 1 ps)"
    using greedy_plan_shape[OF _ pos] balanced_plan_shape[OF _ pos] proportional_plan_shape[OF _ ne]
    by (cases; blast)
  then show ?thesis
    using with_ids_fst[of 1 ps] by (simp add: layout_ChunkID layout_length length_with_ids)
qed

lemma planner_no_empty_chunk:
  assumes "CalculateChunkPlan fshare fileSize driveSpaces strategy manualSizes = Inr plan"
  shows "\<forall>c\<in>set plan. 0 < Size c"
proof -
  let ?avail = "availableDrives driveSpaces"
  from assms(1) have ne: "?avail \<noteq> []"
    by (auto simp: CalculateChunkPlan_def Let_def split: if_splits)
  note pos = availableDrives_positive[of driveSpaces]
  from assms ne consider
      (greedy) "calculateGreedyPlan fileSize ?avail = Inr plan"
    | (balanced) "calculateBalancedPlan fileSize ?avail = Inr plan"
    | (proportional) "calculateProportionalPlan fshare fileSize ?avail = Inr plan"
    | (manual) "calculateManualPlan fileSize ?avail manualSizes = Inr plan"
    by (auto simp: CalculateChunkPlan_def Let_def split: if_splits)
  then have "\<exists>ts. plan = layout 0 ts \<and> (\<forall>t\<in>set ts. 0 < snd (snd t))"
  proof cases
    case greedy
    from greedy_plan_shape[OF this pos] obtain ps where
      "plan = layout 0 (with_ids 1 ps)" "assigned_ok ?avail ps" by blast
    then show ?thesis using with_ids_assigned[of ?avail ps 1] by blast
  next
    case balanced
    from balanced_plan_shape[OF this pos] obtain ps where
      "plan = layout 0 (with_ids 1 ps)" "assigned_ok ?avail ps" by blast
    then show ?thesis using with_ids_assigned[of ?avail ps 1] by blast
  next
    case proportional
    from proportional_plan_shape[OF this ne] obtain ps where
      "plan = layout 0 (with_ids 1 ps)" "assigned_ok ?avail ps" by blast
    then show ?thesis using with_ids_assigned[of ?avail ps 1] by blast
  next
    case manual
    from manual_plan_shape[OF this] show ?thesis by blast
  qed
  then obtain ts where p: "plan = layout 0 ts" and m: "\<forall>t\<in>set ts. 0 < snd (snd t)" by blast
  show ?thesis
  proof
    fix c assume "c \<in> set plan"
    with p obtain t where "t \<in> set ts" "Size c = snd (snd t)" using layout_member by blast
    with m show "0 < Size c" by simp
  qed
qed

section \<open>Theorems about the obfuscation codec\<close>

subsection \<open>The bubble sort sorts\<close>

lemma bubble_pass_length [simp]: "length (bubble_pass n xs) = length xs"
  by (induction n xs rule: bubble_pass.induct) auto

lemma bubble_pass_mset [simp]: "mset (bubble_pass n xs) = mset xs"
  by (induction n xs rule: bubble_pass.induct) auto

lemma bubble_pass_set [simp]: "set (bubble_pass n xs) = set xs"
  by (metis bubble_pass_mset mset_eq_setD)

lemma bubble_pass_Nil [simp]: "bubble_pass n xs = [] \<longleftrightarrow> xs = []"
  by (metis bubble_pass_length length_0_conv)

lemma bubble_pass_append:
  "n < length xs \<Longrightarrow> bubble_pass n (xs @ ys) = bubble_pass n xs @ ys"
proof (induction n arbitrary: xs)
  case 0
  then show ?case by simp
next
  case (Suc n)
  then obtain x y zs where xs: "xs = x # y # zs"
    by (cases xs; cases "tl xs") auto
  with Suc.prems have "n < length (x # zs)" and "n < length (y # zs)" by auto
  with Suc.IH[of "x # zs"] Suc.IH[of "y # zs"] xs show ?case by simp
qed

lemma bubble_pass_last:
  "length xs = Suc n \<Longrightarrow> \<forall>z\<in>set xs. z \<le> last (bubble_pass n xs)"
proof (induction n arbitrary: xs)
  case 0
  then obtain x where "xs = [x]" by (cases xs) auto
  then show ?case by simp
next
  case (Suc n)
  then obtain x y zs where xs: "xs = x # y # zs"
    by (cases xs; cases "tl xs") auto
  with Suc.prems have l: "length (x # zs) = Suc n" "length (y # zs) = Suc n" by auto
  from Suc.IH[OF l(1)] Suc.IH[OF l(2)] xs show ?case
    by (auto simp: last_ConsR)
qed

lemma settled_step:
  assumes "settled i xs" and "Suc i < length xs"
  shows "settled (Suc i) (bubble_pass (length xs - i - 1) xs)"
proof -
  let ?L = "length xs"
  let ?pre = "take (?L - i) xs" and ?suf = "drop (?L - i) xs"
  let ?n = "?L - i - 1"
  have lp: "length ?pre = Suc ?n" using assms(2) by simp
  have split: "xs = ?pre @ ?suf" by simp
  have "bubble_pass ?n xs = bubble_pass ?n (?pre @ ?suf)" by simp
  also have "\<dots> = bubble_pass ?n ?pre @ ?suf"
    by (rule bubble_pass_append) (use lp in simp)
  finally have bp: "bubble_pass ?n xs = bubble_pass ?n ?pre @ ?suf" .
  let ?pre' = "bubble_pass ?n ?pre"
  have lp': "length ?pre' = Suc ?n" using lp by simp
  have ne: "?pre' \<noteq> []" using lp' by auto
  have mx: "\<forall>z\<in>set ?pre. z \<le> last ?pre'" using lp by (rule bubble_pass_last)
  have pre'_split: "?pre' = butlast ?pre' @ [last ?pre']" using ne by simp
  have last_in: "last ?pre' \<in> set ?pre" using ne last_in_set[OF ne] by simp
  have L': "length (bubble_pass ?n xs) = ?L" by simp
  have d: "drop (?L - Suc i) (bubble_pass ?n xs) = last ?pre' # ?suf"
  proof -
    have "drop (?L - Suc i) (?pre' @ ?suf) = drop ?n ?pre' @ ?suf"
      using lp' by simp
    moreover have "drop ?n ?pre' = [last ?pre']"
      using lp' ne by (metis append_butlast_last_id append_eq_conv_conj diff_Suc_1 length_butlast)
    ultimately show ?thesis using bp by simp
  qed
  have t: "take (?L - Suc i) (bubble_pass ?n xs) = butlast ?pre'"
  proof -
    have "take (?L - Suc i) (?pre' @ ?suf) = take ?n ?pre'" using lp' by simp
    moreover have "take ?n ?pre' = butlast ?pre'" using lp' by (simp add: butlast_conv_take)
    ultimately show ?thesis using bp by simp
  qed
  have s1: "sorted (last ?pre' # ?suf)"
    using assms(1) last_in by (auto simp: settled_def)
  have s2: "\<forall>x\<in>set (butlast ?pre'). \<forall>y\<in>set (last ?pre' # ?suf). x \<le> y"
  proof (intro ballI)
    fix x y assume x: "x \<in> set (butlast ?pre')" and y: "y \<in> set (last ?pre' # ?suf)"
    from x have xp: "x \<in> set ?pre" by (metis bubble_pass_set in_set_butlastD)
    from y consider "y = last ?pre'" | "y \<in> set ?suf" by auto
    then show "x \<le> y"
    proof cases
      case 1
      with mx xp show ?thesis by simp
    next
      case 2
      with assms(1) xp show ?thesis by (auto simp: settled_def)
    qed
  qed
  show ?thesis
    unfolding settled_def L' d t using s1 s2 by simp
qed

lemma bubble_fold:
  "m \<le> length xs - 1 \<Longrightarrow>
     length (foldl (\<lambda>xs i. bubble_pass (length xs - i - 1) xs) xs [0..<m]) = length xs
   \<and> mset (foldl (\<lambda>xs i. bubble_pass (length xs - i - 1) xs) xs [0..<m]) = mset xs
   \<and> settled m (foldl (\<lambda>xs i. bubble_pass (length xs - i - 1) xs) xs [0..<m])"
proof (induction m)
  case 0
  then show ?case by (simp add: settled_def)
next
  case (Suc m)
  let ?ys = "foldl (\<lambda>xs i. bubble_pass (length xs - i - 1) xs) xs [0..<m]"
  from Suc have ih: "length ?ys = length xs" "mset ?ys = mset xs" "settled m ?ys" by auto
  from Suc.prems ih(1) have "Suc m < length ?ys" by simp
  from settled_step[OF ih(3) this] ih show ?case by simp
qed

lemma bubbleSort_sort: "bubbleSort xs = sort xs"
proof -
  let ?ys = "bubbleSort xs"
  from bubble_fold[of "length xs - 1" xs]
  have l: "length ?ys = length xs" and m: "mset ?ys = mset xs" and s: "settled (length xs - 1) ?ys"
    by (auto simp: bubbleSort_def)
  have "sorted ?ys"
  proof (cases ?ys)
    case Nil
    then show ?thesis by simp
  next
    case (Cons y ys)
    with l have "length ?ys - (length xs - 1) = 1" by simp
    with s Cons show ?thesis by (auto simp: settled_def)
  qed
  with m show ?thesis by (metis properties_for_sort)
qed


subsection \<open>Offset generation\<close>

lemma offsets_loop_ok:
  "uint64 m \<noteq> 0 \<Longrightarrow>
     offsets_loop rb m i todo acc =
       Inr (acc @ map (\<lambda>j. int64 (BigEndianUint64 (drop (j * 8) rb) mod uint64 m)) [i..<i + todo])"
proof (induction todo arbitrary: i acc)
  case 0
  then show ?case by simp
next
  case (Suc todo)
  have "[i..<i + Suc todo] = i # [Suc i..<Suc i + todo]" by (simp add: upt_rec)
  with Suc show ?case by (simp add: Let_def)
qed

lemma offsets_loop_panic:
  "uint64 m = 0 \<Longrightarrow> 0 < todo \<Longrightarrow> offsets_loop rb m i todo acc = Inl PanicDivideByZero"
  by (cases todo) (auto simp: Let_def)

lemma take_drop_XORKeyStream:
  "d + n \<le> len \<Longrightarrow> take n (drop d (XORKeyStream ks pos len)) = XORKeyStream ks (pos + d) n"
  by (simp add: XORKeyStream_def take_map drop_map take_upt drop_upt ac_simps)

lemma BigEndianUint64_drop:
  "8 * j + 8 \<le> len \<Longrightarrow>
     BigEndianUint64 (drop (j * 8) (XORKeyStream ks pos len)) = keystreamValue ks pos j"
proof -
  assume a: "8 * j + 8 \<le> len"
  have "take 8 (drop (j * 8) (XORKeyStream ks pos len)) = XORKeyStream ks (pos + j * 8) 8"
    using a by (intro take_drop_XORKeyStream) simp
  moreover have "take 8 (XORKeyStream ks (pos + 8 * j) 8) = XORKeyStream ks (pos + 8 * j) 8"
    by (simp add: XORKeyStream_def)
  ultimately show ?thesis
    by (simp add: BigEndianUint64_def keystreamValue_def mult.commute)
qed

lemma uint64_id: "0 \<le> m \<Longrightarrow> m < 2 ^ 64 \<Longrightarrow> uint64 m = nat m"
  by (simp add: uint64_def)

lemma int64_id: "v < 2 ^ 63 \<Longrightarrow> int64 v = int v"
proof -
  assume a: "v < 2 ^ 63"
  have "(2::nat) ^ 63 < 2 ^ 64" by simp
  with a have "v < 2 ^ 64" by linarith
  then have "v mod 2 ^ 64 = v" by simp
  moreover have "int v < 2 ^ 63" using a by (metis of_nat_less_iff of_nat_numeral of_nat_power)
  ultimately show ?thesis by (simp add: int64_def Let_def)
qed

lemma generateInjectionOffsets_panic:
  assumes "0 < k" and "uint64 (if N - g < 0 then N else N - g) = 0"
  shows "generateInjectionOffsets ks pos N k g = Inl PanicDivideByZero"
proof -
  have "0 < nat k" using assms(1) by simp
  from offsets_loop_panic[OF assms(2) this] assms(1) show ?thesis
    unfolding generateInjectionOffsets_def Let_def by simp
qed

lemma sdiv_nonneg_pos: "0 \<le> a \<Longrightarrow> 0 < b \<Longrightarrow> 0 \<le> a sdiv (b::int)"
  by (simp add: sdiv_nonneg pos_imp_zdiv_nonneg_iff)

text \<open>
  For a file of \<open>N \<ge> 1\<close> bytes (below \<open>2^63\<close>), a minimum gap \<open>g \<ge> 0\<close> with \<open>N \<noteq> g\<close> and
  \<open>k \<ge> 0\<close> injections, offset generation returns the first \<open>k\<close> keystream values reduced
  modulo \<open>injectionModulus N g\<close>, sorted.
\<close>

lemma generateInjectionOffsets_ok:
  assumes "0 \<le> k" and "1 \<le> N" and "N < 2 ^ 63" and "0 \<le> g" and "N \<noteq> g"
  shows "1 \<le> injectionModulus N g
       \<and> generateInjectionOffsets ks pos N k g =
           Inr (sort (map (\<lambda>i. int (keystreamValue ks pos i mod nat (injectionModulus N g)))
                          [0..<nat k]))"
proof -
  let ?m = "injectionModulus N g"
  have m1: "1 \<le> ?m" using assms by (auto simp: injectionModulus_def)
  have mN: "?m \<le> N" using assms by (auto simp: injectionModulus_def)
  have "(2::int) ^ 63 < 2 ^ 64" by simp
  with mN assms(3) have m64: "?m < 2 ^ 64" by linarith
  have u: "uint64 ?m = nat ?m" using m1 m64 by (intro uint64_id) auto
  have un: "uint64 ?m \<noteq> 0" using u m1 by simp
  have m63: "nat ?m \<le> 2 ^ 63" using mN assms(3) by (simp add: nat_le_iff)
  have mo: "(if N - g < 0 then N else N - g) = ?m" by (auto simp: injectionModulus_def)
  let ?rb = "XORKeyStream ks pos (nat (k * 8))"
  have map_eq: "map (\<lambda>j. int64 (BigEndianUint64 (drop (j * 8) ?rb) mod uint64 ?m)) [0..<0 + nat k]
      = map (\<lambda>i. int (keystreamValue ks pos i mod nat ?m)) [0..<nat k]"
  proof (rule map_cong)
    show "[0..<0 + nat k] = [0..<nat k]" by simp
  next
    fix j assume "j \<in> set [0..<nat k]"
    then have j: "j < nat k" by simp
    then have "8 * j + 8 \<le> nat (k * 8)" using assms(1) by (simp add: nat_mult_distrib)
    then have b: "BigEndianUint64 (drop (j * 8) ?rb) = keystreamValue ks pos j"
      by (rule BigEndianUint64_drop)
    have "keystreamValue ks pos j mod nat ?m < nat ?m" using m1 by simp
    with m63 have "keystreamValue ks pos j mod nat ?m < 2 ^ 63" by linarith
    then have "int64 (keystreamValue ks pos j mod nat ?m) = int (keystreamValue ks pos j mod nat ?m)"
      by (rule int64_id)
    with b u show "int64 (BigEndianUint64 (drop (j * 8) ?rb) mod uint64 ?m)
        = int (keystreamValue ks pos j mod nat ?m)" by simp
  qed
  have "generateInjectionOffsets ks pos N k g =
          (case offsets_loop ?rb ?m 0 (nat k) [] of
             Inl e \<Rightarrow> Inl e | Inr offsets \<Rightarrow> Inr (bubbleSort offsets))"
    using assms(1) unfolding generateInjectionOffsets_def Let_def mo by simp
  also have "\<dots> = Inr (bubbleSort (map (\<lambda>j. int64 (BigEndianUint64 (drop (j * 8) ?rb) mod uint64 ?m))
                                       [0..<0 + nat k]))"
    unfolding offsets_loop_ok[OF un, of ?rb 0 "nat k" "[]"] by simp
  finally have "generateInjectionOffsets ks pos N k g =
      Inr (bubbleSort (map (\<lambda>i. int (keystreamValue ks pos i mod nat ?m)) [0..<nat k]))"
    unfolding map_eq .
  with m1 show ?thesis by (simp only: bubbleSort_sort simp_thms)
qed

subsection \<open>Claim C2: the modulus of the injection offsets\<close>

text \<open>
  Claim C2 as stated fails for a file shorter than the minimum gap: the code then reduces
  modulo the file size, not modulo 1.  With \<open>N = 5\<close>, \<open>g = 10\<close> and a keystream whose first
  64-bit value is 7 the offset is \<open>7 mod 5 = 2\<close>, where \<open>max(1, N - g) = 1\<close> gives 0.
\<close>

theorem C2_short_file_modulus_counterexample:
  "generateInjectionOffsets keystream7 0 5 1 10 = Inr [2]
   \<and> keystreamValue keystream7 0 0 mod nat (max 1 (5 - 10)) = 0"
  by (simp add: generateInjectionOffsets_def Let_def XORKeyStream_def keystream7_def
        BigEndianUint64_def uint64_def int64_def bubbleSort_def keystreamValue_def upt_rec)

text \<open>
  Claim C2, amended: for a file of \<open>N \<ge> 1\<close> bytes (below \<open>2^63\<close>), a minimum gap \<open>g \<ge> 0\<close> with
  \<open>N \<noteq> g\<close> and \<open>k \<ge> 0\<close> injections, offset generation returns normally, and the offsets are
  the first \<open>k\<close> big-endian 64-bit keystream values, each reduced modulo \<open>N - g\<close> when \<open>N > g\<close>
  and modulo \<open>N\<close> when \<open>N < g\<close>, in ascending order; that modulus is at least 1.
\<close>

theorem C2_offsets_are_keystream_values_mod:
  assumes "0 \<le> k" and "1 \<le> N" and "N < 2 ^ 63" and "0 \<le> g" and "N \<noteq> g"
  shows "1 \<le> injectionModulus N g
       \<and> generateInjectionOffsets ks pos N k g =
           Inr (sort (map (\<lambda>i. int (keystreamValue ks pos i mod nat (injectionModulus N g)))
                          [0..<nat k]))"
  using generateInjectionOffsets_ok[OF assms] .


theorem C2_offsets_are_keystream_values_mod_witness:
  "(0::int) \<le> 1 \<and> (1::int) \<le> 12 \<and> (12::int) < 2 ^ 63 \<and> (0::int) \<le> 10 \<and> (12::int) \<noteq> 10
   \<and> injectionModulus 12 10 = 2
   \<and> generateInjectionOffsets keystream7 0 12 1 10 = Inr [1]"
proof -
  have h: "(0::int) \<le> 1" "(1::int) \<le> 12" "(12::int) < 2 ^ 63" "(0::int) \<le> 10" "(12::int) \<noteq> 10"
    by simp_all
  have m: "injectionModulus 12 10 = 2" by (simp add: injectionModulus_def)
  have v: "keystreamValue keystream7 0 0 = 7"
    by (simp add: keystreamValue_def BigEndianUint64_def XORKeyStream_def keystream7_def upt_rec)
  from C2_offsets_are_keystream_values_mod[OF h, of keystream7 0]
  have "generateInjectionOffsets keystream7 0 12 1 10 = Inr [1]"
    by (simp add: m v)
  with h m show ?thesis by simp
qed

text \<open>
  When the file is exactly as long as the minimum gap the modulus is 0 and the conversion
  loop panics on its first division.
\<close>

lemma generateInjectionOffsets_size_equals_gap:
  "0 < k \<Longrightarrow> generateInjectionOffsets ks pos N k N = Inl PanicDivideByZero"
  by (rule generateInjectionOffsets_panic) (simp_all add: uint64_def)


section \<open>The obfuscation codec: forward followed by inverse\<close>

subsection \<open>The transformations without streaming\<close>

lemma XORKeyStream_length [simp]: "length (XORKeyStream ks pos n) = n"
  by (simp add: XORKeyStream_def)

lemma inject_spec_length:
  "length (inject_spec ks B pos offs cur xs) = length xs + length offs * B"
  by (induction offs arbitrary: pos cur xs) auto

lemma adjust_from_length [simp]: "length (adjust_from B j offs) = length offs"
  by (induction offs arbitrary: j) auto

lemma adjust_from_nth:
  "i < length offs \<Longrightarrow> adjust_from B j offs ! i = offs ! i + int (j + i) * B"
  by (induction offs arbitrary: j i) (auto simp: nth_Cons split: nat.splits)

lemma adjustOffsets_eq:
  "0 < B \<Longrightarrow> adjustOffsetsForProcessedFile offs B = adjust_from B 0 offs"
  by (auto simp: adjustOffsetsForProcessedFile_def adjust_from_nth intro!: nth_equalityI)

lemma spec_round_trip:
  assumes "sorted offs" and "\<forall>off\<in>set offs. cur \<le> off \<and> off \<le> cur + int (length xs)"
  shows "remove_spec (int B) (adjust_from (int B) j offs) (cur + int j * int B)
           (inject_spec ks B pos offs cur xs) = xs"
  using assms
proof (induction offs arbitrary: j cur xs pos)
  case Nil
  then show ?case by simp
next
  case (Cons off offs)
  let ?d = "nat (off - cur)"
  from Cons.prems have d: "?d \<le> length xs" and c: "cur \<le> off" by auto
  have l: "length (take ?d xs) = ?d" using d by simp
  have s: "sorted offs" using Cons.prems by simp
  have r: "\<forall>o'\<in>set offs. off \<le> o' \<and> o' \<le> off + int (length (drop ?d xs))"
    using Cons.prems c d by auto
  have ih: "remove_spec (int B) (adjust_from (int B) (Suc j) offs) (off + int (Suc j) * int B)
           (inject_spec ks B (pos + B) offs off (drop ?d xs)) = drop ?d xs"
    by (rule Cons.IH[OF s r])
  have e1: "nat (off + int j * int B - (cur + int j * int B)) = ?d" by simp
  have e2: "nat (off + int j * int B + int B - (cur + int j * int B)) = ?d + B"
    using c by (simp add: nat_add_distrib)
  have e3: "off + int j * int B + int B = off + int (Suc j) * int B" by (simp add: algebra_simps)
  show ?case
    unfolding adjust_from.simps inject_spec.simps remove_spec.simps e1 e2
    using l ih by (simp add: e3)
qed


subsection \<open>The streaming loops compute the transformations\<close>

text \<open>The recursive equations of the loops are unfolded by hand in this section.\<close>

declare inject_read.simps [simp del] remove_read.simps [simp del] fileReads.simps [simp del]

lemma inject_spec_shift:
  assumes "offs \<noteq> [] \<longrightarrow> cur + int d \<le> hd offs"
  shows "inject_spec ks B pos offs cur ys
           = take d ys @ inject_spec ks B pos offs (cur + int d) (drop d ys)"
proof (cases offs)
  case Nil
  then show ?thesis by simp
next
  case (Cons off offs')
  with assms have le: "cur + int d \<le> off" by simp
  then have e: "nat (off - cur) = d + nat (off - (cur + int d))" by linarith
  show ?thesis
    unfolding Cons inject_spec.simps e by (simp add: take_add add.commute)
qed

lemma inject_read_spec:
  assumes "sorted offsets"
    and "offsetIdx st < length offsets \<longrightarrow>
           nextInjectionPoint st = offsets ! offsetIdx st \<and> currentOffset st \<le> offsets ! offsetIdx st"
  shows "inj_out (inject_read ks offsets B buffer st) @
           inject_spec ks B (cipherPos (inject_read ks offsets B buffer st))
             (drop (offsetIdx (inject_read ks offsets B buffer st)) offsets)
             (currentOffset (inject_read ks offsets B buffer st)) rest
         = inj_out st @
           inject_spec ks B (cipherPos st) (drop (offsetIdx st) offsets) (currentOffset st)
             (buffer @ rest)
       \<and> currentOffset (inject_read ks offsets B buffer st)
           = currentOffset st + int (length buffer)
       \<and> (offsetIdx (inject_read ks offsets B buffer st) < length offsets \<longrightarrow>
            nextInjectionPoint (inject_read ks offsets B buffer st)
              = offsets ! offsetIdx (inject_read ks offsets B buffer st)
            \<and> currentOffset (inject_read ks offsets B buffer st)
                \<le> offsets ! offsetIdx (inject_read ks offsets B buffer st))"
  using assms(2)
proof (induction k \<equiv> "length offsets - offsetIdx st" arbitrary: st buffer)
  case 0
  then have ge: "\<not> offsetIdx st < length offsets" by simp
  then have r: "inject_read ks offsets B buffer st
      = st\<lparr>inj_out := (if length buffer > 0 then inj_out st @ buffer else inj_out st),
           currentOffset := currentOffset st + int (length buffer)\<rparr>"
    by (subst inject_read.simps) simp
  from ge have d: "drop (offsetIdx st) offsets = []" by simp
  show ?case unfolding r using ge d by simp
next
  case (Suc k)
  let ?idx = "offsetIdx st" and ?cur = "currentOffset st" and ?nip = "nextInjectionPoint st"
  from Suc.hyps(2) have lt: "?idx < length offsets" by simp
  with Suc.prems have nip: "?nip = offsets ! ?idx" and le: "?cur \<le> ?nip" by simp_all
  have dr: "drop ?idx offsets = ?nip # drop (Suc ?idx) offsets"
    using lt nip by (simp add: Cons_nth_drop_Suc)
  show ?case
  proof (cases "?nip < ?cur + int (length buffer)")
    case False
    then have r: "inject_read ks offsets B buffer st
        = st\<lparr>inj_out := (if length buffer > 0 then inj_out st @ buffer else inj_out st),
             currentOffset := ?cur + int (length buffer)\<rparr>"
      by (subst inject_read.simps) simp
    have "inject_spec ks B (cipherPos st) (drop ?idx offsets) ?cur (buffer @ rest)
        = take (length buffer) (buffer @ rest) @
          inject_spec ks B (cipherPos st) (drop ?idx offsets) (?cur + int (length buffer))
            (drop (length buffer) (buffer @ rest))"
      by (rule inject_spec_shift) (use False dr in simp)
    then show ?thesis unfolding r using False nip lt by simp
  next
    case True
    define rel where "rel = nat (?nip - ?cur)"
    define st1 where "st1 = st\<lparr>inj_out := (if rel > 0 then inj_out st @ take rel buffer else inj_out st)
                                       @ XORKeyStream ks (cipherPos st) B,
        currentOffset := ?nip, offsetIdx := ?idx + 1,
        nextInjectionPoint := (if ?idx + 1 < length offsets then offsets ! (?idx + 1) else - 1),
        cipherPos := cipherPos st + B\<rparr>"
    have step: "inject_read ks offsets B buffer st = inject_read ks offsets B (drop rel buffer) st1"
      using True lt le by (subst inject_read.simps) (simp add: Let_def rel_def st1_def)
    have rl: "rel < length buffer" using True le by (simp add: rel_def)
    have k: "k = length offsets - offsetIdx st1" using Suc.hyps(2) by (simp add: st1_def)
    have inv1: "offsetIdx st1 < length offsets \<longrightarrow>
           nextInjectionPoint st1 = offsets ! offsetIdx st1 \<and> currentOffset st1 \<le> offsets ! offsetIdx st1"
      using assms(1) nip by (auto simp: st1_def intro: sorted_nth_mono)
    note ih = Suc.hyps(1)[OF k inv1, of "drop rel buffer"]
    have o1: "inj_out st1 = inj_out st @ take rel buffer @ XORKeyStream ks (cipherPos st) B"
      by (simp add: st1_def)
    have rhs: "inject_spec ks B (cipherPos st) (drop ?idx offsets) ?cur (buffer @ rest)
        = take rel buffer @ XORKeyStream ks (cipherPos st) B @
          inject_spec ks B (cipherPos st1) (drop (offsetIdx st1) offsets) (currentOffset st1)
            (drop rel buffer @ rest)"
      unfolding dr inject_spec.simps using rl by (simp add: rel_def st1_def)
    have c1: "currentOffset st1 + int (length (drop rel buffer)) = ?cur + int (length buffer)"
      using rl le by (simp add: st1_def rel_def)
    let ?st' = "inject_read ks offsets B (drop rel buffer) st1"
    from ih have ih1: "inj_out ?st' @
           inject_spec ks B (cipherPos ?st') (drop (offsetIdx ?st') offsets) (currentOffset ?st') rest
         = inj_out st1 @
           inject_spec ks B (cipherPos st1) (drop (offsetIdx st1) offsets) (currentOffset st1)
             (drop rel buffer @ rest)"
      and ih2: "currentOffset ?st' = currentOffset st1 + int (length (drop rel buffer))"
      and ih3: "offsetIdx ?st' < length offsets \<longrightarrow>
            nextInjectionPoint ?st' = offsets ! offsetIdx ?st'
            \<and> currentOffset ?st' \<le> offsets ! offsetIdx ?st'"
      by blast+
    have g1: "inj_out ?st' @
           inject_spec ks B (cipherPos ?st') (drop (offsetIdx ?st') offsets) (currentOffset ?st') rest
         = inj_out st @
           inject_spec ks B (cipherPos st) (drop ?idx offsets) ?cur (buffer @ rest)"
      by (simp only: ih1 o1 rhs append_assoc)
    have g2: "currentOffset ?st' = ?cur + int (length buffer)"
      by (simp only: ih2 c1)
    show ?thesis
      unfolding step using g1 g2 ih3 by blast
  qed
qed

lemma inject_stream_spec:
  assumes "sorted offsets"
    and "offsetIdx st < length offsets \<longrightarrow>
           nextInjectionPoint st = offsets ! offsetIdx st \<and> currentOffset st \<le> offsets ! offsetIdx st"
    and "\<forall>off\<in>set offsets. off < currentOffset st + int (length ys)"
  shows "inj_out (foldl (\<lambda>st buffer. inject_read ks offsets B buffer st) st (fileReads ys))
           = inj_out st @
             inject_spec ks B (cipherPos st) (drop (offsetIdx st) offsets) (currentOffset st) ys"
  using assms(2,3)
proof (induction ys arbitrary: st rule: fileReads.induct)
  case (1 bs)
  show ?case
  proof (cases "bs = []")
    case True
    have "drop (offsetIdx st) offsets = []"
    proof (rule ccontr)
      assume "drop (offsetIdx st) offsets \<noteq> []"
      then have lt: "offsetIdx st < length offsets" by simp
      then have "offsets ! offsetIdx st \<in> set offsets" by simp
      with "1.prems" lt True show False by fastforce
    qed
    with True show ?thesis by (subst fileReads.simps) simp
  next
    case False
    let ?b = "take readBufferSize bs" and ?r = "drop readBufferSize bs"
    let ?st = "inject_read ks offsets B ?b st"
    note I = inject_read_spec[OF assms(1) "1.prems"(1), of ks B ?b ?r]
    from I have c: "currentOffset ?st = currentOffset st + int (length ?b)" by blast
    from I have inv: "offsetIdx ?st < length offsets \<longrightarrow>
            nextInjectionPoint ?st = offsets ! offsetIdx ?st \<and> currentOffset ?st \<le> offsets ! offsetIdx ?st"
      by blast
    have "int (length ?b) + int (length ?r) = int (length bs)" by simp
    with "1.prems"(2) c have w: "\<forall>off\<in>set offsets. off < currentOffset ?st + int (length ?r)"
      by (metis add.assoc)
    have fr: "fileReads bs = ?b # fileReads ?r" using False by (subst fileReads.simps) simp
    have "inj_out (foldl (\<lambda>st buffer. inject_read ks offsets B buffer st) ?st (fileReads ?r))
           = inj_out ?st @
             inject_spec ks B (cipherPos ?st) (drop (offsetIdx ?st) offsets) (currentOffset ?st) ?r"
      by (rule "1.IH"[OF False inv w])
    also have "\<dots> = inj_out st @ inject_spec ks B (cipherPos st) (drop (offsetIdx st) offsets)
                          (currentOffset st) (?b @ ?r)"
      using I by blast
    finally show ?thesis unfolding fr by simp
  qed
qed

lemma streamInjectNoise_spec:
  assumes "0 \<le> B" and "sorted offsets" and "\<forall>off\<in>set offsets. 0 \<le> off \<and> off < int (length inFile)"
  shows "streamInjectNoise inFile ks pos offsets B
           = Inr (inject_spec ks (nat B) pos offsets 0 inFile)"
proof -
  let ?st0 = "\<lparr>inj_out = [], currentOffset = 0, offsetIdx = 0,
               nextInjectionPoint = (if length offsets > 0 then offsets ! 0 else 0),
               cipherPos = pos\<rparr>"
  have "inj_out (foldl (\<lambda>st buffer. inject_read ks offsets (nat B) buffer st) ?st0 (fileReads inFile))
           = inj_out ?st0 @
             inject_spec ks (nat B) (cipherPos ?st0) (drop (offsetIdx ?st0) offsets)
               (currentOffset ?st0) inFile"
    by (rule inject_stream_spec) (use assms in auto)
  with assms(1) show ?thesis by (simp add: streamInjectNoise_def Let_def)
qed


lemma remove_spec_Nil [simp]: "remove_spec B adjs cur [] = []"
  by (induction adjs arbitrary: cur) auto

lemma remove_spec_shift:
  assumes "adjs \<noteq> [] \<longrightarrow> cur + int d \<le> hd adjs" and "0 \<le> B"
  shows "remove_spec B adjs cur ys = take d ys @ remove_spec B adjs (cur + int d) (drop d ys)"
proof (cases adjs)
  case Nil
  then show ?thesis by simp
next
  case (Cons a adjs')
  with assms have le: "cur + int d \<le> a" by simp
  then have e1: "nat (a - cur) = d + nat (a - (cur + int d))" by linarith
  from le assms(2) have e2: "nat (a + B - cur) = nat (a + B - (cur + int d)) + d" by linarith
  show ?thesis
    unfolding Cons remove_spec.simps e1 e2 by (simp add: take_add add.commute)
qed

lemma take_mid: "r \<le> length chunk \<Longrightarrow> take (r - w) (drop w chunk @ rest) = drop w (take r chunk)"
  by (simp add: drop_take)

lemma drop_mid_in:
  "w \<le> e \<Longrightarrow> e \<le> length chunk \<Longrightarrow> drop (e - w) (drop w chunk @ rest) = drop e chunk @ rest"
  by simp

lemma drop_mid_out:
  "w \<le> length chunk \<Longrightarrow> length chunk \<le> e \<Longrightarrow>
     drop (e - w) (drop w chunk @ rest) = drop (e - length chunk) rest"
  by simp

lemma remove_spec_block:
  assumes "0 \<le> ws" and "ws \<le> int (length chunk)" and "c + ws < a + B"
    and "a < c + int (length chunk)"
  shows "remove_spec B (a # adjs') (c + ws) (drop (nat ws) chunk @ rest)
         = drop (nat ws) (take (nat (a - c)) chunk) @
           remove_spec B adjs' (a + B)
             (if a + B \<le> c + int (length chunk) then drop (nat (a + B - c)) chunk @ rest
              else drop (nat (a + B - c - int (length chunk))) rest)"
proof -
  have e1: "nat (a - (c + ws)) = nat (a - c) - nat ws" using assms(1) by linarith
  have e2: "nat (a + B - (c + ws)) = nat (a + B - c) - nat ws" using assms(1,3) by linarith
  have r: "nat (a - c) \<le> length chunk" using assms(4) by linarith
  have w: "nat ws \<le> nat (a + B - c)" using assms(1,3) by linarith
  have wl: "nat ws \<le> length chunk" using assms(1,2) by linarith
  show ?thesis
  proof (cases "a + B \<le> c + int (length chunk)")
    case True
    then have e: "nat (a + B - c) \<le> length chunk" by linarith
    show ?thesis
      unfolding remove_spec.simps e1 e2 take_mid[OF r] drop_mid_in[OF w e] using True by simp
  next
    case False
    then have e: "length chunk \<le> nat (a + B - c)" by linarith
    have e3: "nat (a + B - c) - length chunk = nat (a + B - c - int (length chunk))"
      using False by linarith
    show ?thesis
      unfolding remove_spec.simps e1 e2 take_mid[OF r] drop_mid_out[OF wl e] e3 using False by simp
  qed
qed


lemma remove_read_spec:
  assumes gaps: "\<forall>m. Suc m < length adjs \<longrightarrow> adjs ! m + B \<le> adjs ! Suc m" and B: "0 < B"
    and ws: "0 \<le> ws" "ws \<le> int (length chunk)"
    and P: "rem_offsetIdx st < length adjs \<longrightarrow>
              rem_currentOffset st + ws < adjs ! rem_offsetIdx st + B"
    and Q: "rem_offsetIdx st < length adjs \<longrightarrow> adjs ! rem_offsetIdx st < rem_currentOffset st \<longrightarrow>
              adjs ! rem_offsetIdx st + B \<le> rem_currentOffset st + int (length chunk)"
  shows "rem_out (fst (remove_read adjs B chunk ws st)) @
           drop (nat (snd (remove_read adjs B chunk ws st))) chunk @
           remove_spec B (drop (rem_offsetIdx (fst (remove_read adjs B chunk ws st))) adjs)
             (rem_currentOffset st + int (length chunk)) rest
         = rem_out st @
           remove_spec B (drop (rem_offsetIdx st) adjs) (rem_currentOffset st + ws)
             (drop (nat ws) chunk @ rest)
       \<and> rem_currentOffset (fst (remove_read adjs B chunk ws st)) = rem_currentOffset st
       \<and> 0 \<le> snd (remove_read adjs B chunk ws st)
       \<and> snd (remove_read adjs B chunk ws st) \<le> int (length chunk)
       \<and> (rem_offsetIdx (fst (remove_read adjs B chunk ws st)) < length adjs \<longrightarrow>
            rem_currentOffset st + int (length chunk)
              < adjs ! rem_offsetIdx (fst (remove_read adjs B chunk ws st)) + B)"
  using ws P Q
proof (induction k \<equiv> "length adjs - rem_offsetIdx st" arbitrary: st ws)
  case 0
  then have ge: "\<not> rem_offsetIdx st < length adjs" by simp
  then have r: "remove_read adjs B chunk ws st = (st, ws)"
    by (subst remove_read.simps) simp
  from ge have d: "drop (rem_offsetIdx st) adjs = []" by simp
  show ?case unfolding r using ge d "0.prems" by simp
next
  case (Suc k)
  let ?idx = "rem_offsetIdx st" and ?c = "rem_currentOffset st" and ?n = "int (length chunk)"
  let ?a = "adjs ! ?idx"
  from Suc.hyps(2) have lt: "?idx < length adjs" by simp
  with Suc.prems have P': "?c + ws < ?a + B" and Q': "?a < ?c \<longrightarrow> ?a + B \<le> ?c + ?n" by simp_all
  have dr: "drop ?idx adjs = ?a # drop (Suc ?idx) adjs"
    using lt by (simp add: Cons_nth_drop_Suc)
  have nxt: "Suc ?idx < length adjs \<longrightarrow> ?a + B \<le> adjs ! Suc ?idx" using gaps by simp
  consider (beyond) "?c + ?n \<le> ?a"
    | (cut) "?c \<le> ?a" "?a < ?c + ?n" "?c + ?n < ?a + B"
    | (inside) "?a < ?c + ?n" "?a + B \<le> ?c + ?n"
    using Q' by linarith
  then show ?case
  proof cases
    case beyond
    then have r: "remove_read adjs B chunk ws st = (st, ws)"
      using lt B by (subst remove_read.simps) (simp add: Let_def)
    have wl: "nat ws \<le> length chunk" using Suc.prems(1,2) by linarith
    have "drop ?idx adjs \<noteq> [] \<longrightarrow> (?c + ws) + int (length chunk - nat ws) \<le> hd (drop ?idx adjs)"
      using beyond dr Suc.prems(1,2) by simp
    from remove_spec_shift[OF this, of B "drop (nat ws) chunk @ rest"] B
    have "remove_spec B (drop ?idx adjs) (?c + ws) (drop (nat ws) chunk @ rest)
        = drop (nat ws) chunk @
          remove_spec B (drop ?idx adjs) (?c + ?n) rest"
      using wl Suc.prems(1,2) by (simp add: of_nat_diff)
    then show ?thesis unfolding r using beyond lt B Suc.prems(1,2) by simp
  next
    case cut
    define out1 where "out1 = rem_out st @ drop (nat ws) (take (nat (?a - ?c)) chunk)"
    have o: "(if ?a - ?c > ws then rem_out st @ drop (nat ws) (take (nat (?a - ?c)) chunk)
              else rem_out st) = out1"
      using Suc.prems(1) by (auto simp: out1_def)
    have r: "remove_read adjs B chunk ws st = (st\<lparr>rem_out := out1\<rparr>, ?n)"
      using lt cut o by (subst remove_read.simps) (simp add: Let_def)
    have blk: "remove_spec B (?a # drop (Suc ?idx) adjs) (?c + ws) (drop (nat ws) chunk @ rest)
         = drop (nat ws) (take (nat (?a - ?c)) chunk) @
           remove_spec B (drop (Suc ?idx) adjs) (?a + B)
             (drop (nat (?a + B - ?c - ?n)) rest)"
      using remove_spec_block[OF Suc.prems(1,2) P' cut(2), of "drop (Suc ?idx) adjs" rest] cut(3)
      by simp
    have e1: "nat (?a - (?c + ?n)) = 0" using cut(2) by simp
    have e2: "?a + B - (?c + ?n) = ?a + B - ?c - ?n" by simp
    have lhs: "remove_spec B (drop ?idx adjs) (?c + ?n) rest
        = remove_spec B (drop (Suc ?idx) adjs) (?a + B) (drop (nat (?a + B - ?c - ?n)) rest)"
      unfolding dr remove_spec.simps e1 e2 by simp
    have rhs: "remove_spec B (drop ?idx adjs) (?c + ws) (drop (nat ws) chunk @ rest)
         = drop (nat ws) (take (nat (?a - ?c)) chunk) @
           remove_spec B (drop (Suc ?idx) adjs) (?a + B)
             (drop (nat (?a + B - ?c - ?n)) rest)"
      unfolding dr by (rule blk)
    show ?thesis
      unfolding r using cut lt
      by (simp add: out1_def lhs rhs)
  next
    case inside
    define out1 where "out1 = rem_out st @ drop (nat ws) (take (nat (?a - ?c)) chunk)"
    define st1 where "st1 = st\<lparr>rem_out := out1, rem_offsetIdx := ?idx + 1\<rparr>"
    define ws1 where "ws1 = ?a + B - ?c"
    have r: "remove_read adjs B chunk ws st = remove_read adjs B chunk ws1 st1"
    proof (cases "?c \<le> ?a")
      case True
      have o: "(if ?a - ?c > ws then rem_out st @ drop (nat ws) (take (nat (?a - ?c)) chunk)
              else rem_out st) = out1"
        using Suc.prems(1) by (auto simp: out1_def)
      show ?thesis
        using lt True inside o
        by (subst remove_read.simps) (simp add: Let_def st1_def ws1_def)
    next
      case False
      then have "out1 = rem_out st" by (simp add: out1_def)
      then have s: "st1 = st\<lparr>rem_offsetIdx := ?idx + 1\<rparr>" by (simp add: st1_def)
      have gt: "?a + B > ?c" using P' Suc.prems(1) by linarith
      show ?thesis
        using lt False inside gt
        by (subst remove_read.simps) (simp add: Let_def s ws1_def)
    qed
    have k: "k = length adjs - rem_offsetIdx st1" using Suc.hyps(2) by (simp add: st1_def)
    have w1: "0 \<le> ws1" "ws1 \<le> ?n" using P' Suc.prems(1) inside by (simp_all add: ws1_def)
    have P1: "rem_offsetIdx st1 < length adjs \<longrightarrow>
              rem_currentOffset st1 + ws1 < adjs ! rem_offsetIdx st1 + B"
      using nxt B by (auto simp: st1_def ws1_def)
    have Q1: "rem_offsetIdx st1 < length adjs \<longrightarrow> adjs ! rem_offsetIdx st1 < rem_currentOffset st1 \<longrightarrow>
              adjs ! rem_offsetIdx st1 + B \<le> rem_currentOffset st1 + int (length chunk)"
      using nxt P' Suc.prems(1) by (auto simp: st1_def)
    note ih = Suc.hyps(1)[OF k w1 P1 Q1]
    let ?R = "remove_read adjs B chunk ws1 st1"
    from ih have ih1: "rem_out (fst ?R) @ drop (nat (snd ?R)) chunk @
           remove_spec B (drop (rem_offsetIdx (fst ?R)) adjs) (rem_currentOffset st1 + ?n) rest
         = rem_out st1 @
           remove_spec B (drop (rem_offsetIdx st1) adjs) (rem_currentOffset st1 + ws1)
             (drop (nat ws1) chunk @ rest)"
      and ih2: "rem_currentOffset (fst ?R) = rem_currentOffset st1"
        "0 \<le> snd ?R" "snd ?R \<le> ?n"
      and ih3: "rem_offsetIdx (fst ?R) < length adjs \<longrightarrow>
            rem_currentOffset st1 + ?n < adjs ! rem_offsetIdx (fst ?R) + B"
      by blast+
    have c1: "rem_currentOffset st1 = ?c" "rem_offsetIdx st1 = Suc ?idx" "rem_out st1 = out1"
      by (simp_all add: st1_def)
    have blk: "remove_spec B (?a # drop (Suc ?idx) adjs) (?c + ws) (drop (nat ws) chunk @ rest)
         = drop (nat ws) (take (nat (?a - ?c)) chunk) @
           remove_spec B (drop (Suc ?idx) adjs) (?a + B) (drop (nat ws1) chunk @ rest)"
      using remove_spec_block[OF Suc.prems(1,2) P' inside(1), of "drop (Suc ?idx) adjs" rest] inside(2)
      by (simp add: ws1_def)
    have e: "?c + ws1 = ?a + B" by (simp add: ws1_def)
    have g1: "rem_out (fst ?R) @ drop (nat (snd ?R)) chunk @
           remove_spec B (drop (rem_offsetIdx (fst ?R)) adjs) (?c + ?n) rest
         = rem_out st @
           remove_spec B (drop ?idx adjs) (?c + ws) (drop (nat ws) chunk @ rest)"
      using ih1 unfolding c1 e dr blk by (simp add: out1_def)
    show ?thesis
      unfolding r using g1 ih2 ih3 unfolding c1 by blast
  qed
qed


lemma remove_step_spec:
  assumes gaps: "\<forall>m. Suc m < length adjs \<longrightarrow> adjs ! m + B \<le> adjs ! Suc m" and B: "0 < B"
    and P: "rem_offsetIdx st < length adjs \<longrightarrow> rem_currentOffset st < adjs ! rem_offsetIdx st + B"
    and Q: "rem_offsetIdx st < length adjs \<longrightarrow> adjs ! rem_offsetIdx st < rem_currentOffset st \<longrightarrow>
              adjs ! rem_offsetIdx st + B \<le> rem_currentOffset st + int (length chunk)"
  shows "rem_out (remove_step adjs B st chunk) @
           remove_spec B (drop (rem_offsetIdx (remove_step adjs B st chunk)) adjs)
             (rem_currentOffset (remove_step adjs B st chunk)) rest
         = rem_out st @ remove_spec B (drop (rem_offsetIdx st) adjs) (rem_currentOffset st)
                          (chunk @ rest)
       \<and> rem_currentOffset (remove_step adjs B st chunk)
           = rem_currentOffset st + int (length chunk)
       \<and> (rem_offsetIdx (remove_step adjs B st chunk) < length adjs \<longrightarrow>
            rem_currentOffset (remove_step adjs B st chunk)
              < adjs ! rem_offsetIdx (remove_step adjs B st chunk) + B)"
proof -
  let ?R = "remove_read adjs B chunk 0 st"
  have P0: "rem_offsetIdx st < length adjs \<longrightarrow>
              rem_currentOffset st + 0 < adjs ! rem_offsetIdx st + B"
    using P by simp
  have z: "(0::int) \<le> 0" "0 \<le> int (length chunk)" by simp_all
  note R = remove_read_spec[OF gaps B z P0 Q, of rest]
  from R have r1: "rem_out (fst ?R) @ drop (nat (snd ?R)) chunk @
           remove_spec B (drop (rem_offsetIdx (fst ?R)) adjs)
             (rem_currentOffset st + int (length chunk)) rest
         = rem_out st @
           remove_spec B (drop (rem_offsetIdx st) adjs) (rem_currentOffset st + 0)
             (drop (nat 0) chunk @ rest)"
    and r2: "rem_currentOffset (fst ?R) = rem_currentOffset st"
    and r3: "0 \<le> snd ?R" "snd ?R \<le> int (length chunk)"
    and r4: "rem_offsetIdx (fst ?R) < length adjs \<longrightarrow>
            rem_currentOffset st + int (length chunk) < adjs ! rem_offsetIdx (fst ?R) + B"
    by blast+
  have o: "(if snd ?R < int (length chunk) then rem_out (fst ?R) @ drop (nat (snd ?R)) chunk
           else rem_out (fst ?R)) = rem_out (fst ?R) @ drop (nat (snd ?R)) chunk"
    using r3 by auto
  have s: "remove_step adjs B st chunk
      = (fst ?R)\<lparr>rem_out := rem_out (fst ?R) @ drop (nat (snd ?R)) chunk,
                 rem_currentOffset := rem_currentOffset (fst ?R) + int (length chunk)\<rparr>"
    by (simp add: remove_step_def o split: prod.splits)
  show ?thesis
    unfolding s using r1 r2 r4 by simp
qed

lemma remove_stream_spec:
  assumes gaps: "\<forall>m. Suc m < length adjs \<longrightarrow> adjs ! m + B \<le> adjs ! Suc m" and B: "0 < B"
    and Bmax: "B \<le> int readBufferSize"
    and P: "rem_offsetIdx st < length adjs \<longrightarrow> rem_currentOffset st < adjs ! rem_offsetIdx st + B"
    and W: "\<forall>a\<in>set adjs. a + B \<le> rem_currentOffset st + int (length ys)"
  shows "rem_out (foldl (remove_step adjs B) st (fileReads ys))
           = rem_out st @ remove_spec B (drop (rem_offsetIdx st) adjs) (rem_currentOffset st) ys"
  using P W
proof (induction ys arbitrary: st rule: fileReads.induct)
  case (1 bs)
  show ?case
  proof (cases "bs = []")
    case True
    then show ?thesis by (subst fileReads.simps) simp
  next
    case False
    let ?b = "take readBufferSize bs" and ?r = "drop readBufferSize bs"
    let ?st = "remove_step adjs B st ?b"
    have Q: "rem_offsetIdx st < length adjs \<longrightarrow> adjs ! rem_offsetIdx st < rem_currentOffset st \<longrightarrow>
              adjs ! rem_offsetIdx st + B \<le> rem_currentOffset st + int (length ?b)"
    proof (intro impI)
      assume lt: "rem_offsetIdx st < length adjs"
        and a: "adjs ! rem_offsetIdx st < rem_currentOffset st"
      show "adjs ! rem_offsetIdx st + B \<le> rem_currentOffset st + int (length ?b)"
      proof (cases "readBufferSize \<le> length bs")
        case True
        then have "length ?b = readBufferSize" by simp
        with a Bmax show ?thesis by linarith
      next
        case False
        then have "?b = bs" by simp
        moreover from lt have "adjs ! rem_offsetIdx st \<in> set adjs" by simp
        ultimately show ?thesis using "1.prems"(2) by auto
      qed
    qed
    note S = remove_step_spec[OF gaps B "1.prems"(1) Q, of ?r]
    from S have c: "rem_currentOffset ?st = rem_currentOffset st + int (length ?b)" by blast
    from S have inv: "rem_offsetIdx ?st < length adjs \<longrightarrow>
        rem_currentOffset ?st < adjs ! rem_offsetIdx ?st + B" by blast
    have "int (length ?b) + int (length ?r) = int (length bs)" by simp
    with "1.prems"(2) c have w: "\<forall>a\<in>set adjs. a + B \<le> rem_currentOffset ?st + int (length ?r)"
      by (metis add.assoc)
    have fr: "fileReads bs = ?b # fileReads ?r" using False by (subst fileReads.simps) simp
    have "rem_out (foldl (remove_step adjs B) ?st (fileReads ?r))
           = rem_out ?st @ remove_spec B (drop (rem_offsetIdx ?st) adjs) (rem_currentOffset ?st) ?r"
      by (rule "1.IH"[OF False inv w])
    also have "\<dots> = rem_out st @ remove_spec B (drop (rem_offsetIdx st) adjs)
                          (rem_currentOffset st) (?b @ ?r)"
      using S by blast
    finally show ?thesis unfolding fr by simp
  qed
qed

lemma streamRemoveNoise_spec:
  assumes gaps: "\<forall>m. Suc m < length adjs \<longrightarrow> adjs ! m + B \<le> adjs ! Suc m" and B: "0 < B"
    and Bmax: "B \<le> int readBufferSize"
    and P: "adjs \<noteq> [] \<longrightarrow> 0 < hd adjs + B"
    and W: "\<forall>a\<in>set adjs. a + B \<le> int (length ys)"
  shows "streamRemoveNoise ys adjs B = remove_spec B adjs 0 ys"
proof -
  let ?st0 = "\<lparr>rem_out = [], rem_currentOffset = 0, rem_offsetIdx = 0\<rparr>"
  have P0: "rem_offsetIdx ?st0 < length adjs \<longrightarrow>
              rem_currentOffset ?st0 < adjs ! rem_offsetIdx ?st0 + B"
    using P by (cases adjs) auto
  have W0: "\<forall>a\<in>set adjs. a + B \<le> rem_currentOffset ?st0 + int (length ys)"
    using W by simp
  from remove_stream_spec[OF gaps B Bmax P0 W0]
  show ?thesis by (simp add: streamRemoveNoise_def)
qed


subsection \<open>The round trip of the codec\<close>

lemma generateInjectionOffsets_props:
  assumes "0 \<le> k" and "1 \<le> N" and "N < 2 ^ 63" and "0 \<le> g" and "N \<noteq> g"
  shows "\<exists>offs. generateInjectionOffsets ks pos N k g = Inr offs \<and> sorted offs
           \<and> length offs = nat k \<and> (\<forall>off\<in>set offs. 0 \<le> off \<and> off < N)"
proof -
  let ?m = "injectionModulus N g"
  let ?offs = "sort (map (\<lambda>i. int (keystreamValue ks pos i mod nat ?m)) [0..<nat k])"
  from generateInjectionOffsets_ok[OF assms, of ks pos]
  have m1: "1 \<le> ?m" and g: "generateInjectionOffsets ks pos N k g = Inr ?offs" by blast+
  have mN: "?m \<le> N" using assms by (auto simp: injectionModulus_def)
  have "\<forall>off\<in>set ?offs. 0 \<le> off \<and> off < N"
  proof
    fix off assume "off \<in> set ?offs"
    then obtain i where "off = int (keystreamValue ks pos i mod nat ?m)" by auto
    moreover have "keystreamValue ks pos i mod nat ?m < nat ?m" using m1 by simp
    ultimately show "0 \<le> off \<and> off < N" using mN by linarith
  qed
  with g show ?thesis by (intro exI[of _ ?offs]) simp
qed

lemma adjust_from_gaps:
  assumes "sorted offs" and "0 \<le> B"
  shows "\<forall>m. Suc m < length (adjust_from B j offs) \<longrightarrow>
           adjust_from B j offs ! m + B \<le> adjust_from B j offs ! Suc m"
proof (intro allI impI)
  fix m assume "Suc m < length (adjust_from B j offs)"
  then have l: "Suc m < length offs" by simp
  then have "offs ! m \<le> offs ! Suc m" using assms(1) by (simp add: sorted_nth_mono)
  then show "adjust_from B j offs ! m + B \<le> adjust_from B j offs ! Suc m"
    using l by (simp add: adjust_from_nth algebra_simps)
qed

lemma adjust_from_within:
  assumes "\<forall>off\<in>set offs. off \<le> N" and "0 \<le> B"
  shows "\<forall>a\<in>set (adjust_from B 0 offs). a + B \<le> N + int (length offs) * B"
proof
  fix a assume "a \<in> set (adjust_from B 0 offs)"
  then obtain m where m: "m < length offs" and a: "a = adjust_from B 0 offs ! m"
    by (auto simp: in_set_conv_nth)
  from m have "offs ! m \<le> N" using assms(1) by simp
  moreover from m have "int (Suc m) * B \<le> int (length offs) * B"
    using assms(2) by (intro mult_right_mono) simp_all
  ultimately show "a + B \<le> N + int (length offs) * B"
    using a m by (simp add: adjust_from_nth algebra_simps)
qed

lemma stream_round_trip:
  assumes "sorted offs" and "\<forall>off\<in>set offs. 0 \<le> off \<and> off < int (length xs)"
    and "0 < B" and "B \<le> int readBufferSize"
  shows "streamInjectNoise xs ks pos offs B = Inr (inject_spec ks (nat B) pos offs 0 xs)"
    and "streamRemoveNoise (inject_spec ks (nat B) pos offs 0 xs)
           (adjustOffsetsForProcessedFile offs B) B = xs"
proof -
  show "streamInjectNoise xs ks pos offs B = Inr (inject_spec ks (nat B) pos offs 0 xs)"
    using assms by (intro streamInjectNoise_spec) simp_all
  let ?out = "inject_spec ks (nat B) pos offs 0 xs"
  let ?adjs = "adjust_from B 0 offs"
  have B0: "0 \<le> B" using assms(3) by simp
  have len: "int (length ?out) = int (length xs) + int (length offs) * B"
    using assms(3) by (simp add: inject_spec_length)
  have gaps: "\<forall>m. Suc m < length ?adjs \<longrightarrow> ?adjs ! m + B \<le> ?adjs ! Suc m"
    using assms(1) B0 by (rule adjust_from_gaps)
  have P: "?adjs \<noteq> [] \<longrightarrow> 0 < hd ?adjs + B"
    using assms(2,3) by (cases offs) auto
  have le: "\<forall>off\<in>set offs. off \<le> int (length xs)" using assms(2) by auto
  have W: "\<forall>a\<in>set ?adjs. a + B \<le> int (length ?out)"
    unfolding len using le B0 by (rule adjust_from_within)
  have "streamRemoveNoise ?out ?adjs B = remove_spec B ?adjs 0 ?out"
    using gaps assms(3,4) P W by (rule streamRemoveNoise_spec)
  also have "\<dots> = xs"
  proof -
    have r: "\<forall>off\<in>set offs. 0 \<le> off \<and> off \<le> 0 + int (length xs)" using assms(2) by auto
    from spec_round_trip[OF assms(1) r, of "nat B" 0 ks pos] assms(3)
    show ?thesis by simp
  qed
  finally show "streamRemoveNoise ?out (adjustOffsetsForProcessedFile offs B) B = xs"
    using assms(3) by (simp add: adjustOffsets_eq)
qed

text \<open>
  Forward followed by inverse reproduces the input when the file is not empty and not exactly
  as long as the minimum gap, the block size is between 1 and the size of the read buffer
  (32 KiB), the minimum gap and the scaled overhead are not negative, the seed has 32 bytes
  and comes back from its base64 encoding.  The processed size that \<open>ObfuscateFile\<close> returns
  is the length of its output.  Reads are taken to fill the buffer, and \<open>int64\<close> arithmetic
  not to overflow.
\<close>

lemma codec_round_trip:
  assumes seed: "length seed = 32" and b64: "base64Decode libs (base64Encode libs seed) = Some seed"
    and B: "0 < defaultBlockSize cfg" "defaultBlockSize cfg \<le> int readBufferSize"
    and p: "0 \<le> floatScale libs (int (length inFile)) (defaultOverheadPct cfg)"
    and g: "0 \<le> defaultMinGap cfg" "int (length inFile) \<noteq> defaultMinGap cfg"
    and N: "inFile \<noteq> []" "int (length inFile) < 2 ^ 63"
  shows "\<exists>md psize out. ObfuscateFile libs cfg inFile seed = Inr (md, psize, out)
           \<and> psize = int (length out)
           \<and> DeobfuscateFile libs out (Some md) (int (length inFile)) = Inr inFile"
proof -
  let ?N = "int (length inFile)" and ?B = "defaultBlockSize cfg" and ?g = "defaultMinGap cfg"
  let ?ks = "chacha20 libs seed"
  let ?q = "floatScale libs ?N (defaultOverheadPct cfg) sdiv ?B"
  define k where "k = (if ?q = 0 then 1 else ?q)"
  have "0 \<le> ?q" using B(1) p by (intro sdiv_nonneg_pos) auto
  then have k1: "1 \<le> k" by (auto simp: k_def)
  then have k0: "0 \<le> k" by simp
  have N1: "1 \<le> ?N" using N(1) by (cases inFile) auto
  from generateInjectionOffsets_props[OF k0 N1 N(2) g, of ?ks 0]
  obtain offs where gen: "generateInjectionOffsets ?ks 0 ?N k ?g = Inr offs"
    and so: "sorted offs" and lo: "length offs = nat k"
    and ro: "\<forall>off\<in>set offs. 0 \<le> off \<and> off < ?N" by blast
  let ?out = "inject_spec ?ks (nat ?B) (nat (k * 8)) offs 0 inFile"
  let ?md = "\<lparr>Algorithm = ''ChaCha20-DRBG'', Seed = base64Encode libs seed, BlockSize = ?B,
              OverheadPct = defaultOverheadPct cfg, MinGap = ?g\<rparr>"
  note rt = stream_round_trip[OF so ro B, of ?ks "nat (k * 8)"]
  have obf: "ObfuscateFile libs cfg inFile seed = Inr (?md, int (length ?out), ?out)"
    using seed B(1) gen rt(1)
    by (simp add: ObfuscateFile_def NewUnauthenticatedCipher_def Let_def k_def)
  have len: "int (length ?out) = ?N + k * ?B"
    using B(1) k0 lo by (simp add: inject_spec_length)
  have kB: "0 < k * ?B" using k1 B(1) by simp
  have nb: "int (length ?out) - ?N = k * ?B" using len by simp
  have dv: "k * ?B div ?B = k" "k * ?B mod ?B = 0" using B(1) by simp_all
  have nn: "\<not> k * ?B < 0" using kB by simp
  have de: "DeobfuscateFile libs ?out (Some ?md) ?N = Inr inFile"
    using seed b64 B(1) N1 kB k1 gen rt(2) N(1)
    by (simp add: DeobfuscateFile_def NewUnauthenticatedCipher_def Let_def nb dv len nn)
  from obf de show ?thesis by blast
qed

declare inject_read.simps [simp] remove_read.simps [simp] fileReads.simps [simp]

text \<open>
  An instance: a 4-byte file with block size 2, overhead 50 percent and minimum gap 1.
\<close>

lemma codec_round_trip_example:
  "\<exists>md psize out. ObfuscateFile libs1 config2 [1, 2, 3, 4] (replicate 32 0) = Inr (md, psize, out)
     \<and> psize = int (length out)
     \<and> DeobfuscateFile libs1 out (Some md) 4 = Inr [1, 2, 3, 4]"
  using codec_round_trip[of "replicate 32 0" libs1 config2 "[1, 2, 3, 4]"]
  by (simp add: libs1_def config2_def readBufferSize_def)
subsection \<open>Claim C1: the round trip, and where it breaks\<close>

lemma ObfuscateFile_size_equals_gap:
  assumes "length seed = 32" and "0 < defaultBlockSize cfg"
    and "0 \<le> floatScale libs (int (length inFile)) (defaultOverheadPct cfg)"
    and "int (length inFile) = defaultMinGap cfg"
  shows "ObfuscateFile libs cfg inFile seed = Inl PanicDivideByZero"
proof -
  let ?q = "floatScale libs (int (length inFile)) (defaultOverheadPct cfg) sdiv defaultBlockSize cfg"
  let ?cnt = "if ?q = 0 then 1 else ?q"
  have "0 \<le> ?q" using assms(2,3) by (intro sdiv_nonneg_pos) auto
  then have "0 < ?cnt" by auto
  then have "generateInjectionOffsets (chacha20 libs seed) 0 (int (length inFile)) ?cnt
               (defaultMinGap cfg) = Inl PanicDivideByZero"
    unfolding assms(4) by (rule generateInjectionOffsets_size_equals_gap)
  then show ?thesis
    using assms(1,2) by (simp add: ObfuscateFile_def NewUnauthenticatedCipher_def Let_def)
qed

text \<open>
  Claim C1 (forward followed by inverse reproduces every input of positive length) fails on
  the spec's own round-trip scenario: an input of 4096 bytes, a 32-byte seed and the default
  parameters \<open>B = 256\<close>, \<open>p = 8\<close>, \<open>g = 4096\<close>.  The file is exactly as long as the minimum gap,
  \<open>maxOffset = fileSize - minGap\<close> is 0, only a negative \<open>maxOffset\<close> is replaced, and
  \<open>val % uint64(maxOffset)\<close> panics: \<open>ObfuscateFile\<close> produces no output to invert.
\<close>

theorem C1_obfuscate_panics_on_4096_bytes:
  "ObfuscateFile libs1 defaultConfig (replicate 4096 0) (replicate 32 0) = Inl PanicDivideByZero"
  by (rule ObfuscateFile_size_equals_gap) (simp_all add: defaultConfig_def libs1_def)

section \<open>Theorems about the upload handlers\<close>

lemma ObjectIDFromHex_hex1: "ObjectIDFromHex hex1 = Some 1"
  by (simp add: ObjectIDFromHex_def hex1_def hexDigit_def)


lemma ParseInt_syntax_zero: "snd (ParseInt s) = Some ErrSyntax \<Longrightarrow> fst (ParseInt s) = 0"
  by (auto simp: ParseInt_def Let_def split: if_splits prod.splits)

lemma ParseInt_empty: "ParseInt [] = (0, Some ErrSyntax)"
  by (simp add: ParseInt_def)

lemma ParseInt_abc: "ParseInt ''abc'' = (0, Some ErrSyntax)"
  by (simp add: ParseInt_def ParseUint_def Let_def)

lemma ParseInt_zero: "ParseInt ''0'' = (0, None)"
  by (simp add: ParseInt_def ParseUint_def Let_def)


lemma writeAt_zero_take: "take (length bs) (writeAt file 0 bs) = bs"
  by (simp add: writeAt_def)

subsection \<open>Claim C4: finalize does not look at the status\<close>

text \<open>
  Claim C4 as stated fails: \<open>FinalizeUploadHandler\<close> never reads \<open>session.Status\<close>.  For a session
  that is already \<open>processing\<close>, fully uploaded and not expired, a second finalize returns 200
  and starts another pipeline.
\<close>

theorem C4_second_finalize_counterexample:
  "StatusCode (fst (FinalizeUploadHandler (world1 ''processing'' 10) 7 50 (Some finalizeRequest1))) = 200
   \<and> length (Spawned (snd (FinalizeUploadHandler (world1 ''processing'' 10) 7 50 (Some finalizeRequest1)))) = 1
   \<and> Spawned (world1 ''processing'' 10) = []"
  by (simp add: FinalizeUploadHandler_def finalizeRequest1_def ObjectIDFromHex_hex1 GetSession_def
        world1_def session1_def UpdateSessionStatus_def httpOK_def Let_def)

text \<open>
  Claim C4, amended: finalize succeeds (HTTP 200) exactly when the request decodes, the session
  exists in the store, belongs to the caller, has not expired, and \<open>uploaded_size = total_size\<close>,
  whatever the session's status; it then sets the status to \<open>processing\<close> and starts one
  pipeline.  Every other outcome leaves the world as it was.
\<close>

theorem C4_finalize_succeeds_iff:
  "(StatusCode (fst (FinalizeUploadHandler w userID now body)) = 200 \<longleftrightarrow>
      (\<exists>req sessionID session.
          body = Some req \<and> ObjectIDFromHex (SessionID req) = Some sessionID \<and> StoreAvailable w
        \<and> Sessions w sessionID = Some session \<and> UserID session = userID
        \<and> \<not> now > ExpiresAt session \<and> UploadedSize session = TotalSize session))
   \<and> (StatusCode (fst (FinalizeUploadHandler w userID now body)) = 200 \<longrightarrow>
        length (Spawned (snd (FinalizeUploadHandler w userID now body))) = length (Spawned w) + 1
      \<and> (\<forall>req sessionID. body = Some req \<and> ObjectIDFromHex (SessionID req) = Some sessionID \<longrightarrow>
            (\<exists>s'. Sessions (snd (FinalizeUploadHandler w userID now body)) sessionID = Some s'
                 \<and> Status s' = ''processing'')))
   \<and> (StatusCode (fst (FinalizeUploadHandler w userID now body)) \<noteq> 200 \<longrightarrow>
        snd (FinalizeUploadHandler w userID now body) = w)"
  by (auto simp: FinalizeUploadHandler_def GetSession_def UpdateSessionStatus_def httpError_def
        httpOK_def Let_def split: option.splits sum.splits if_splits)

theorem C4_finalize_succeeds_iff_witness:
  "StatusCode (fst (FinalizeUploadHandler (world1 ''complete'' 10) 7 50 (Some finalizeRequest1))) = 200
   \<and> (\<exists>s'. Sessions (snd (FinalizeUploadHandler (world1 ''complete'' 10) 7 50 (Some finalizeRequest1))) 1 = Some s'
          \<and> Status s' = ''processing'')"
proof -
  have "\<exists>req sessionID session.
          Some finalizeRequest1 = Some req \<and> ObjectIDFromHex (SessionID req) = Some sessionID
        \<and> StoreAvailable (world1 ''complete'' 10)
        \<and> Sessions (world1 ''complete'' 10) sessionID = Some session \<and> UserID session = 7
        \<and> \<not> 50 > ExpiresAt session \<and> UploadedSize session = TotalSize session"
    by (rule exI[of _ finalizeRequest1], rule exI[of _ 1], rule exI[of _ "session1 ''complete'' 10"])
       (simp add: finalizeRequest1_def ObjectIDFromHex_hex1 world1_def session1_def)
  with C4_finalize_succeeds_iff[of "world1 ''complete'' 10" 7 50 "Some finalizeRequest1"]
  have ok: "StatusCode (fst (FinalizeUploadHandler (world1 ''complete'' 10) 7 50 (Some finalizeRequest1))) = 200"
    by blast
  with C4_finalize_succeeds_iff[of "world1 ''complete'' 10" 7 50 "Some finalizeRequest1"]
  have "\<exists>s'. Sessions (snd (FinalizeUploadHandler (world1 ''complete'' 10) 7 50 (Some finalizeRequest1))) 1 = Some s'
          \<and> Status s' = ''processing''"
    using ObjectIDFromHex_hex1 by (simp add: finalizeRequest1_def)
  with ok show ?thesis by blast
qed

subsection \<open>Claim C6: \<open>uploaded_size\<close> is the running maximum\<close>

lemma openTemp_Sessions: "Sessions (openTemp w p) = Sessions w"
  by (simp add: openTemp_def split: option.splits)

lemma openTemp_StoreAvailable: "StoreAvailable (openTemp w p) = StoreAvailable w"
  by (simp add: openTemp_def split: option.splits)

lemma writeTemp_Sessions: "Sessions (writeTemp w p off bs) = Sessions w"
  by (simp add: writeTemp_def)

lemma writeTemp_StoreAvailable: "StoreAvailable (writeTemp w p off bs) = StoreAvailable w"
  by (simp add: writeTemp_def)

lemmas temp_simps =
  openTemp_Sessions openTemp_StoreAvailable writeTemp_Sessions writeTemp_StoreAvailable






subsection \<open>Claim C10: an unparsable offset is offset 0\<close>

text \<open>
  Claim C10: the handler discards the error of \<open>strconv.ParseInt\<close>.  When the \<open>offset\<close> field is
  missing (the empty string) or is not an integer numeral, \<open>ParseInt\<close> reports a syntax error
  with value 0, so the request is handled exactly as one with offset 0: if the session is
  found, the form carries a chunk and the file system calls succeed, the chunk's bytes are
  written at the beginning of the session's temp file and the response is HTTP 200.
\<close>

theorem C10_unparsable_offset_is_zero:
  assumes "snd (ParseInt (cq_offset r)) = Some ErrSyntax"
    and "ObjectIDFromHex (cq_session_id r) = Some sessionID"
    and "GetSession w now sessionID userID = Inr session"
    and "cq_form_ok r" and "cq_chunk r = Some file"
    and "\<not> OpenFails io" and "\<not> SeekFails io" and "CopyFailsAfter io = None"
  shows "UploadChunkHandler w userID now r io = UploadChunkHandler w userID now (r\<lparr>cq_offset := ''0''\<rparr>) io
       \<and> StatusCode (fst (UploadChunkHandler w userID now r io)) = 200
       \<and> (\<exists>content. TempFiles (snd (UploadChunkHandler w userID now r io)) (TempFilePath session)
                       = Some content
                   \<and> take (length file) content = file)"
proof -
  have z: "fst (ParseInt (cq_offset r)) = 0" using assms(1) by (rule ParseInt_syntax_zero)
  have ne: "cq_session_id r \<noteq> []" using assms(2) by (auto simp: ObjectIDFromHex_def)
  have 1: "UploadChunkHandler w userID now r io
             = UploadChunkHandler w userID now (r\<lparr>cq_offset := ''0''\<rparr>) io"
    by (auto simp: UploadChunkHandler_def z ParseInt_zero Let_def
          split: option.splits sum.splits)
  have 2: "StatusCode (fst (UploadChunkHandler w userID now r io)) = 200"
    using assms(2-8) ne by (simp add: UploadChunkHandler_def z httpOK_def Let_def)
  have 3: "TempFiles (snd (UploadChunkHandler w userID now r io)) (TempFilePath session)
             = Some (writeAt (case TempFiles (openTemp w (TempFilePath session)) (TempFilePath session) of
                                None \<Rightarrow> [] | Some f \<Rightarrow> f) 0 file)"
    using assms(2-8) ne
    by (auto simp: UploadChunkHandler_def z httpOK_def Let_def UpdateSessionProgress_def
          writeTemp_def temp_simps split: option.splits)
  from 1 2 3 writeAt_zero_take show ?thesis by blast
qed

theorem C10_unparsable_offset_is_zero_witness:
  "snd (ParseInt (cq_offset (chunkRequest1 ''abc'' [1, 2, 3]))) = Some ErrSyntax
   \<and> StatusCode (fst (UploadChunkHandler (world1 ''uploading'' 0) 7 50
                        (chunkRequest1 ''abc'' [1, 2, 3]) ioOK)) = 200
   \<and> (\<exists>content. TempFiles (snd (UploadChunkHandler (world1 ''uploading'' 0) 7 50
                        (chunkRequest1 ''abc'' [1, 2, 3]) ioOK)) ''/tmp/1_a.bin'' = Some content
        \<and> take 3 content = [1, 2, 3])"
proof -
  have h1: "snd (ParseInt (cq_offset (chunkRequest1 ''abc'' [1, 2, 3]))) = Some ErrSyntax"
    by (simp add: chunkRequest1_def ParseInt_abc)
  have h2: "ObjectIDFromHex (cq_session_id (chunkRequest1 ''abc'' [1, 2, 3])) = Some 1"
    by (simp add: chunkRequest1_def ObjectIDFromHex_hex1)
  have h3: "GetSession (world1 ''uploading'' 0) 50 1 7 = Inr (session1 ''uploading'' 0)"
    by (simp add: GetSession_def world1_def session1_def)
  have h4: "cq_form_ok (chunkRequest1 ''abc'' [1, 2, 3])" by (simp add: chunkRequest1_def)
  have h5: "cq_chunk (chunkRequest1 ''abc'' [1, 2, 3]) = Some [1, 2, 3]" by (simp add: chunkRequest1_def)
  have h6: "\<not> OpenFails ioOK" and h7: "\<not> SeekFails ioOK" and h8: "CopyFailsAfter ioOK = None"
    by (simp_all add: ioOK_def)
  have p: "TempFilePath (session1 ''uploading'' 0) = ''/tmp/1_a.bin''"
    and l: "length [1, 2, 3 :: byte] = 3"
    by (simp_all add: session1_def)
  from C10_unparsable_offset_is_zero[OF h1 h2 h3 h4 h5 h6 h7 h8]
  have "StatusCode (fst (UploadChunkHandler (world1 ''uploading'' 0) 7 50
                        (chunkRequest1 ''abc'' [1, 2, 3]) ioOK)) = 200
   \<and> (\<exists>content. TempFiles (snd (UploadChunkHandler (world1 ''uploading'' 0) 7 50
                        (chunkRequest1 ''abc'' [1, 2, 3]) ioOK)) ''/tmp/1_a.bin'' = Some content
        \<and> take 3 content = [1, 2, 3])"
    unfolding p l by blast
  with h1 show ?thesis by blast
qed


section \<open>The processing pipeline: a failed upload\<close>

subsection \<open>Status updates and the cleanup loop\<close>

lemma setStatus_fields [simp]:
  "pw_StoredFiles (setStatus w sid st p msg) = pw_StoredFiles w"
  "pw_KeyFiles (setStatus w sid st p msg) = pw_KeyFiles w"
  "pw_DriveLog (setStatus w sid st p msg) = pw_DriveLog w"
  "pw_CleanupScheduled (setStatus w sid st p msg) = pw_CleanupScheduled w"
  by (simp_all add: setStatus_def UpdateSessionStatus_def Let_def split: option.splits)

lemma setStatus_live [simp]:
  "sessionLive (setStatus w sid st p msg) sid' = sessionLive w sid'"
  by (auto simp: sessionLive_def setStatus_def UpdateSessionStatus_def Let_def
      split: option.splits if_splits)

lemma setStatus_tempFiles [simp]:
  "TempFiles (pw_World (setStatus w sid st p msg)) = TempFiles (pw_World w)"
  by (auto simp: setStatus_def UpdateSessionStatus_def Let_def split: option.splits if_splits)

lemma setStatus_failed:
  "sessionLive w sid \<Longrightarrow> msg \<noteq> [] \<Longrightarrow> sessionFailed (setStatus w sid ''failed'' p msg) sid msg"
  by (auto simp: sessionLive_def sessionFailed_def setStatus_def UpdateSessionStatus_def Let_def
      split: option.splits if_splits)

lemma sessionLive_driveLog [simp]:
  "sessionLive (w\<lparr>pw_DriveLog := l\<rparr>) sid = sessionLive w sid"
  by (simp add: sessionLive_def)

lemma foldl_DeleteDriveFile:
  "foldl (\<lambda>w sc. DeleteDriveFile w (sc_DriveAccountID sc) (sc_DriveFileID sc)) w scs =
     w\<lparr>pw_DriveLog := pw_DriveLog w @
          map (\<lambda>sc. DeleteCall (sc_DriveAccountID sc) (sc_DriveFileID sc)) scs\<rparr>"
  by (induction scs arbitrary: w) (simp_all add: DeleteDriveFile_def)

subsection \<open>The upload loop up to the failing chunk\<close>

lemma upload_loop_fails:
  assumes "length storedChunks = i0" and "i0 \<le> i" and "i < i0 + length rest" and "i < length plan"
    and "\<forall>j. i0 \<le> j \<and> j < i \<longrightarrow> chunkSucceeds env j"
    and "env_upload env i = Inl err"
    and "map (\<lambda>sc. DeleteCall (sc_DriveAccountID sc) (sc_DriveFileID sc)) storedChunks =
           map (deleteOp env plan) [0..<i0]"
  shows "\<exists>w'. upload_loop env session plan n i0 rest storedChunks w = Inl (Finished w')
           \<and> pw_DriveLog w' = pw_DriveLog w @ concat (map (uploadOps env session plan) [i0..<i])
                                @ map (deleteOp env plan) [0..<i]
           \<and> pw_StoredFiles w' = pw_StoredFiles w \<and> pw_KeyFiles w' = pw_KeyFiles w
           \<and> pw_CleanupScheduled w' = pw_CleanupScheduled w
           \<and> (sessionLive w (ID session) \<longrightarrow>
                 sessionFailed w' (ID session) (''Upload failed: '' @ err))"
  using assms
proof (induction rest arbitrary: i0 storedChunks w)
  case Nil
  then show ?case by simp
next
  case (Cons chunkPath rest)
  show ?case
  proof (cases "i0 = i")
    case True
    with Cons.prems show ?thesis
      by (simp add: Let_def foldl_DeleteDriveFile setStatus_failed)
  next
    case False
    with Cons.prems have lt: "i0 < i" by simp
    with Cons.prems have ok: "chunkSucceeds env i0" by simp
    then obtain fid cs acc man mfid where
      up: "env_upload env i0 = Inr fid" and ck: "env_checksum env i0 = Some cs"
      and ac: "env_account env i0 = Some acc" and mn: "env_manifest env i0 = Some (man, mfid)"
      by (auto simp: chunkSucceeds_def split: sum.splits)
    define w1 where "w1 = setStatus w (ID session) ''processing'' (70 + (20 * real i0 / real n))
                            (env_uploadingText env (i0 + 1) n)"
    define sc where "sc = \<lparr>sc_ChunkID = ChunkID (plan ! i0),
        sc_DriveAccountID = DriveAccountID (plan ! i0),
        sc_DriveID = (case (da_DriveID acc, man) of
                        ([], Some manifestDriveID) \<Rightarrow> manifestDriveID
                      | _ \<Rightarrow> da_DriveID acc),
        sc_DriveFileID = fid,
        sc_Filename = env_chunkFilename env (FileID session) (ChunkID (plan ! i0)),
        sc_Size = Size (plan ! i0), sc_Checksum = cs,
        sc_StartOffset = StartOffset (plan ! i0), sc_EndOffset = EndOffset (plan ! i0)\<rparr>"
    define w3 where "w3 = w1\<lparr>pw_DriveLog := pw_DriveLog w1 @ uploadOps env session plan i0\<rparr>"
    have step: "upload_loop env session plan n i0 (chunkPath # rest) storedChunks w =
                  upload_loop env session plan n (Suc i0) rest (storedChunks @ [sc]) w3"
      using lt Cons.prems(4) up ck ac mn
      by (simp add: Let_def w1_def sc_def w3_def uploadOps_def driveFileIDOf_def)
    have dels: "map (\<lambda>sc. DeleteCall (sc_DriveAccountID sc) (sc_DriveFileID sc)) (storedChunks @ [sc])
                  = map (deleteOp env plan) [0..<Suc i0]"
      using Cons.prems(7) up by (simp add: sc_def deleteOp_def driveFileIDOf_def)
    have "\<exists>w'. upload_loop env session plan n (Suc i0) rest (storedChunks @ [sc]) w3 = Inl (Finished w')
           \<and> pw_DriveLog w' = pw_DriveLog w3 @ concat (map (uploadOps env session plan) [Suc i0..<i])
                                @ map (deleteOp env plan) [0..<i]
           \<and> pw_StoredFiles w' = pw_StoredFiles w3 \<and> pw_KeyFiles w' = pw_KeyFiles w3
           \<and> pw_CleanupScheduled w' = pw_CleanupScheduled w3
           \<and> (sessionLive w3 (ID session) \<longrightarrow>
                 sessionFailed w' (ID session) (''Upload failed: '' @ err))"
      using Cons.prems lt dels by (intro Cons.IH) auto
    then obtain w' where
      r: "upload_loop env session plan n (Suc i0) rest (storedChunks @ [sc]) w3 = Inl (Finished w')"
      and l: "pw_DriveLog w' = pw_DriveLog w3 @ concat (map (uploadOps env session plan) [Suc i0..<i])
                                @ map (deleteOp env plan) [0..<i]"
      and o: "pw_StoredFiles w' = pw_StoredFiles w3" "pw_KeyFiles w' = pw_KeyFiles w3"
             "pw_CleanupScheduled w' = pw_CleanupScheduled w3"
      and f: "sessionLive w3 (ID session) \<longrightarrow>
                 sessionFailed w' (ID session) (''Upload failed: '' @ err)"
      by blast
    have upt: "[i0..<i] = i0 # [Suc i0..<i]" using lt by (simp add: upt_conv_Cons)
    show ?thesis
      unfolding step
      using r l o f by (simp add: upt w3_def w1_def)
  qed
qed

lemma prepare_Inr:
  assumes "prepare env session strategy manualSizes w = Inr (w4, md, psize, plan, chunkPaths)"
  shows "length chunkPaths = length plan"
    and "pw_DriveLog w4 = pw_DriveLog w" and "pw_StoredFiles w4 = pw_StoredFiles w"
    and "pw_KeyFiles w4 = pw_KeyFiles w" and "pw_CleanupScheduled w4 = pw_CleanupScheduled w"
    and "sessionLive w4 sid = sessionLive w sid"
  using assms
  by (auto simp: prepare_def Let_def split: sum.splits option.splits if_splits prod.splits)


text \<open>
  Claim C5: if uploading chunk \<open>i\<close> to its drive fails during the processing pipeline, then
  every chunk \<open>j < i\<close> already uploaded in the same run is best-effort deleted from its
  drive, the session transitions to status \<open>failed\<close> with the cause recorded in
  \<open>error_message\<close>, and neither a \<open>StoredFile\<close> record nor a key file is created.

  The run reaches the upload of chunk \<open>i\<close> when steps 1 to 4 produce a plan with more than \<open>i\<close>
  chunks and the loop body succeeds for the chunks before it.  Then the run ends normally;
  the drive log gains the uploads (and manifest updates) of the chunks \<open>0, ..., i - 1\<close>
  followed by one delete for each of them, in that order, on the drive account of the chunk
  and for the file id its upload returned; the session, when the store holds it, has status
  \<open>failed\<close> and error message \<open>Upload failed: \<close> followed by the cause; the stored files and
  the key files are those from before the run; and the temp cleanup is scheduled.
\<close>

theorem C5_failed_upload_rolls_back:
  assumes "plannedChunks env session strategy manualSizes w = Some plan"
    and "i < length plan" and "allSucceed env i" and "env_upload env i = Inl err"
  shows "(let r = processAndUploadFile env session strategy manualSizes userID w; w' = worldOf r
          in isFinished r
             \<and> pw_DriveLog w' = pw_DriveLog w @ concat (map (uploadOps env session plan) [0..<i])
                                  @ map (deleteOp env plan) [0..<i]
             \<and> (sessionLive w (ID session) \<longrightarrow>
                   sessionFailed w' (ID session) (''Upload failed: '' @ err))
             \<and> pw_StoredFiles w' = pw_StoredFiles w \<and> pw_KeyFiles w' = pw_KeyFiles w
             \<and> pw_CleanupScheduled w' = pw_CleanupScheduled w @ [ID session])"
proof -
  from assms(1) obtain w4 md psize chunkPaths where
    p: "prepare env session strategy manualSizes w = Inr (w4, md, psize, plan, chunkPaths)"
    by (auto simp: plannedChunks_def split: sum.splits)
  note q = prepare_Inr[OF p]
  define w5 where "w5 = setStatus w4 (ID session) ''processing'' 70 ''Uploading chunks to drives...''"
  have "\<forall>j. 0 \<le> j \<and> j < i \<longrightarrow> chunkSucceeds env j"
    using assms(3) by (simp add: allSucceed_def list_all_iff)
  with assms(2,4) q(1)
  have "\<exists>w'. upload_loop env session plan (length chunkPaths) 0 chunkPaths [] w5 = Inl (Finished w')
           \<and> pw_DriveLog w' = pw_DriveLog w5 @ concat (map (uploadOps env session plan) [0..<i])
                                @ map (deleteOp env plan) [0..<i]
           \<and> pw_StoredFiles w' = pw_StoredFiles w5 \<and> pw_KeyFiles w' = pw_KeyFiles w5
           \<and> pw_CleanupScheduled w' = pw_CleanupScheduled w5
           \<and> (sessionLive w5 (ID session) \<longrightarrow>
                 sessionFailed w' (ID session) (''Upload failed: '' @ err))"
    by (intro upload_loop_fails) simp_all
  then obtain w' where
    r: "upload_loop env session plan (length chunkPaths) 0 chunkPaths [] w5 = Inl (Finished w')"
    and l: "pw_DriveLog w' = pw_DriveLog w5 @ concat (map (uploadOps env session plan) [0..<i])
                                @ map (deleteOp env plan) [0..<i]"
    and o: "pw_StoredFiles w' = pw_StoredFiles w5" "pw_KeyFiles w' = pw_KeyFiles w5"
           "pw_CleanupScheduled w' = pw_CleanupScheduled w5"
    and f: "sessionLive w5 (ID session) \<longrightarrow>
                 sessionFailed w' (ID session) (''Upload failed: '' @ err)"
    by blast
  have run: "processAndUploadFile env session strategy manualSizes userID w
               = Finished (scheduleCleanup (ID session) w')"
    using p r by (simp add: processAndUploadFile_def mapResult_def Let_def w5_def)
  show ?thesis
    unfolding run Let_def
    using l o f q
    by (simp add: isFinished_def worldOf_def scheduleCleanup_def w5_def sessionFailed_def)
qed

subsection \<open>The concrete run\<close>

lemma fileReads_short:
  "bs \<noteq> [] \<Longrightarrow> length bs \<le> readBufferSize \<Longrightarrow> fileReads bs = [bs]"
  by (subst fileReads.simps) simp

lemma offsets_config2:
  "generateInjectionOffsets (\<lambda>i. of_nat i) 0 4 1 1 = Inr [1]"
  by (simp add: generateInjectionOffsets_def XORKeyStream_def BigEndianUint64_def uint64_def
        int64_def bubbleSort_def upt_rec Let_def)

lemma ObfuscateFile_config2:
  "ObfuscateFile libs1 config2 [1, 2, 3, 4] (replicate 32 0)
     = Inr (\<lparr>Algorithm = ''ChaCha20-DRBG'', Seed = base64Encode libs1 (replicate 32 0),
             BlockSize = 2, OverheadPct = 50, MinGap = 1\<rparr>, 6, [1, 8, 9, 2, 3, 4])"
  by (simp add: ObfuscateFile_def NewUnauthenticatedCipher_def config2_def libs1_def Let_def
        offsets_config2 streamInjectNoise_def fileReads_short readBufferSize_def
        XORKeyStream_def upt_rec)

lemma plannedChunks_env2:
  "plannedChunks env2 (session1 ''processing'' 10) StrategyGreedy [] pipeWorld2
     = Some [\<lparr>ChunkID = 1, DriveAccountID = 11, Size = 4, StartOffset = 0, EndOffset = 4\<rparr>,
             \<lparr>ChunkID = 2, DriveAccountID = 12, Size = 2, StartOffset = 4, EndOffset = 6\<rparr>]"
  by (simp add: plannedChunks_def prepare_def env2_def pipeWorld2_def world1_def session1_def
        ObfuscateFile_config2 CalculateChunkPlan_def availableDrives_def mkDrive_def
        calculateGreedyPlan_def mkChunk_def StrategyGreedy_def StrategyBalanced_def
        StrategyProportional_def StrategyManual_def sortDrivesDesc_def Let_def)


theorem C5_failed_upload_rolls_back_witness:
  "plannedChunks env2 (session1 ''processing'' 10) StrategyGreedy [] pipeWorld2
     = Some [\<lparr>ChunkID = 1, DriveAccountID = 11, Size = 4, StartOffset = 0, EndOffset = 4\<rparr>,
             \<lparr>ChunkID = 2, DriveAccountID = 12, Size = 2, StartOffset = 4, EndOffset = 6\<rparr>]
   \<and> allSucceed env2 1 \<and> env_upload env2 1 = Inl ''quota exceeded''
   \<and> sessionLive pipeWorld2 1
   \<and> isFinished (processAndUploadFile env2 (session1 ''processing'' 10) StrategyGreedy [] 7 pipeWorld2)
   \<and> pw_DriveLog (worldOf (processAndUploadFile env2 (session1 ''processing'' 10) StrategyGreedy []
                              7 pipeWorld2))
       = [UploadCall 11 ''f1.2xpfm'' ''g0'', ManifestCall 11 ''m'', DeleteCall 11 ''g0'']
   \<and> sessionFailed (worldOf (processAndUploadFile env2 (session1 ''processing'' 10) StrategyGreedy []
                                7 pipeWorld2)) 1 ''Upload failed: quota exceeded''
   \<and> pw_StoredFiles (worldOf (processAndUploadFile env2 (session1 ''processing'' 10) StrategyGreedy []
                                 7 pipeWorld2)) = []
   \<and> pw_KeyFiles (worldOf (processAndUploadFile env2 (session1 ''processing'' 10) StrategyGreedy []
                              7 pipeWorld2)) = []
   \<and> pw_CleanupScheduled (worldOf (processAndUploadFile env2 (session1 ''processing'' 10)
                                      StrategyGreedy [] 7 pipeWorld2)) = [1]"
proof -
  let ?plan = "[\<lparr>ChunkID = 1, DriveAccountID = 11, Size = 4, StartOffset = 0, EndOffset = 4\<rparr>,
                \<lparr>ChunkID = 2, DriveAccountID = 12, Size = 2, StartOffset = 4, EndOffset = (6::int)\<rparr>]"
  let ?r = "processAndUploadFile env2 (session1 ''processing'' 10) StrategyGreedy [] 7 pipeWorld2"
  have p: "plannedChunks env2 (session1 ''processing'' 10) StrategyGreedy [] pipeWorld2 = Some ?plan"
    by (rule plannedChunks_env2)
  have n: "1 < length ?plan" by simp
  have a: "allSucceed env2 1" by (simp add: allSucceed_def chunkSucceeds_def env2_def)
  have u: "env_upload env2 1 = Inl ''quota exceeded''" by (simp add: env2_def)
  have s: "sessionLive pipeWorld2 1" by (simp add: sessionLive_def pipeWorld2_def world1_def)
  have i: "ID (session1 ''processing'' 10) = 1" by (simp add: session1_def)
  have ops: "concat (map (uploadOps env2 (session1 ''processing'' 10) ?plan) [0..<1])
               @ map (deleteOp env2 ?plan) [0..<1]
             = [UploadCall 11 ''f1.2xpfm'' ''g0'', ManifestCall 11 ''m'', DeleteCall 11 ''g0'']"
    by (simp add: uploadOps_def deleteOp_def driveFileIDOf_def env2_def session1_def)
  have w: "pw_DriveLog pipeWorld2 = []" "pw_StoredFiles pipeWorld2 = []"
    "pw_KeyFiles pipeWorld2 = []" "pw_CleanupScheduled pipeWorld2 = []"
    by (simp_all add: pipeWorld2_def)
  from C5_failed_upload_rolls_back[OF p n a u, of 7]
  have "isFinished ?r
        \<and> pw_DriveLog (worldOf ?r)
            = [UploadCall 11 ''f1.2xpfm'' ''g0'', ManifestCall 11 ''m'', DeleteCall 11 ''g0'']
        \<and> sessionFailed (worldOf ?r) 1 ''Upload failed: quota exceeded''
        \<and> pw_StoredFiles (worldOf ?r) = [] \<and> pw_KeyFiles (worldOf ?r) = []
        \<and> pw_CleanupScheduled (worldOf ?r) = [1]"
    unfolding Let_def i ops w using s by simp
  with p a u s show ?thesis by blast
qed
section \<open>Theorems about initiating a download\<close>

text \<open>
  Claim C9: when the submitted key file carries a file id and a (non-empty) obfuscation seed,
  the user has a stored file with that file id, and the stored seed differs from the key
  file's seed, the request is rejected with HTTP 401, not 404, and the world is unchanged: no
  download session is created and no download is started.
\<close>

theorem C9_seed_mismatch_is_401:
  assumes "dq_form_ok r" and "dq_key_file r = Some (Some key)"
    and "kf_FileID key \<noteq> []" and "Seed (kf_Obfuscation key) \<noteq> []"
    and "GetStoredFileByFileID w userID (kf_FileID key) = Inr (Some storedFile)"
    and "sf_ObfuscationSeed storedFile \<noteq> Seed (kf_Obfuscation key)"
  shows "StatusCode (fst (InitiateDownloadHandler w userID now expiry newID tempPath r)) = 401
       \<and> StatusCode (fst (InitiateDownloadHandler w userID now expiry newID tempPath r)) \<noteq> 404
       \<and> snd (InitiateDownloadHandler w userID now expiry newID tempPath r) = w"
  using assms by (simp add: InitiateDownloadHandler_def httpError_def)

theorem C9_seed_mismatch_is_401_witness:
  "dq_form_ok (downloadRequest1 ''c2VlZEI='')
   \<and> GetStoredFileByFileID downloadWorld1 7 ''f1'' = Inr (Some storedFile1)
   \<and> sf_ObfuscationSeed storedFile1 \<noteq> ''c2VlZEI=''
   \<and> StatusCode (fst (InitiateDownloadHandler downloadWorld1 7 50 3600 9 ''/tmp/d'' (downloadRequest1 ''c2VlZEI=''))) = 401
   \<and> dw_DownloadSessions (snd (InitiateDownloadHandler downloadWorld1 7 50 3600 9 ''/tmp/d'' (downloadRequest1 ''c2VlZEI=''))) = []"
proof -
  let ?key = "keyFile1 ''c2VlZEI=''"
  have h1: "dq_form_ok (downloadRequest1 ''c2VlZEI='')"
    and h2: "dq_key_file (downloadRequest1 ''c2VlZEI='') = Some (Some ?key)"
    by (simp_all add: downloadRequest1_def)
  have h3: "kf_FileID ?key \<noteq> []" and h4: "Seed (kf_Obfuscation ?key) \<noteq> []"
    by (simp_all add: keyFile1_def obfuscation1_def)
  have h5': "GetStoredFileByFileID downloadWorld1 7 ''f1'' = Inr (Some storedFile1)"
    by (simp add: GetStoredFileByFileID_def downloadWorld1_def storedFile1_def)
  then have h5: "GetStoredFileByFileID downloadWorld1 7 (kf_FileID ?key) = Inr (Some storedFile1)"
    by (simp add: keyFile1_def)
  have h6': "sf_ObfuscationSeed storedFile1 \<noteq> ''c2VlZEI=''"
    by (simp add: storedFile1_def)
  then have h6: "sf_ObfuscationSeed storedFile1 \<noteq> Seed (kf_Obfuscation ?key)"
    by (simp add: keyFile1_def obfuscation1_def)
  from C9_seed_mismatch_is_401[OF h1 h2 h3 h4 h5 h6, of 50 3600 9 "''/tmp/d''"]
  have "StatusCode (fst (InitiateDownloadHandler downloadWorld1 7 50 3600 9 ''/tmp/d'' (downloadRequest1 ''c2VlZEI=''))) = 401"
    and "snd (InitiateDownloadHandler downloadWorld1 7 50 3600 9 ''/tmp/d'' (downloadRequest1 ''c2VlZEI='')) = downloadWorld1"
    by blast+
  then show ?thesis using h1 h5' h6' by (simp add: downloadWorld1_def)
qed

text \<open>
  Two neighbours of the claim in the same handler: an unknown file id is the 404, and a key
  file whose seed is empty is rejected earlier with 400.
\<close>

lemma unknown_file_id_is_404:
  assumes "dq_form_ok r" and "dq_key_file r = Some (Some key)"
    and "kf_FileID key \<noteq> []" and "Seed (kf_Obfuscation key) \<noteq> []"
    and "GetStoredFileByFileID w userID (kf_FileID key) = Inr None"
  shows "StatusCode (fst (InitiateDownloadHandler w userID now expiry newID tempPath r)) = 404"
  using assms by (simp add: InitiateDownloadHandler_def httpError_def)

lemma empty_seed_is_400:
  assumes "dq_form_ok r" and "dq_key_file r = Some (Some key)" and "Seed (kf_Obfuscation key) = []"
  shows "StatusCode (fst (InitiateDownloadHandler w userID now expiry newID tempPath r)) = 400"
  using assms by (simp add: InitiateDownloadHandler_def httpError_def)


end
